theory Spec2Isabelle
  imports Main "HOL-Library.Word" "HOL-Library.Sublist"
begin

section \<open>JavaScript strings\<close>

text \<open>
  A JavaScript string is a sequence of 16-bit code units; \<open>length\<close>, \<open>trim\<close>, the regular
  expressions of the worker and \<open>btoa\<close> all work on code units. ASCII literals of the
  source are written \<open>js ''...''\<close>.
\<close>

type_synonym unit16 = "16 word"
type_synonym jstring = "unit16 list"

definition js :: "string \<Rightarrow> jstring" where
  "js s = map of_char s"

text \<open>
  The white space of \<open>String.prototype.trim\<close> and of the class \<open>\s\<close>: TAB, LF, VT, FF,
  CR, SP, NBSP, U+1680, U+2000..U+200A, U+2028, U+2029, U+202F, U+205F, U+3000, U+FEFF.
\<close>

definition is_space :: "unit16 \<Rightarrow> bool" where
  "is_space c \<longleftrightarrow>
     (0x09 \<le> c \<and> c \<le> 0x0D) \<or> c = 0x20 \<or> c = 0xA0 \<or> c = 0x1680 \<or>
     (0x2000 \<le> c \<and> c \<le> 0x200A) \<or> c = 0x2028 \<or> c = 0x2029 \<or> c = 0x202F \<or>
     c = 0x205F \<or> c = 0x3000 \<or> c = 0xFEFF"

definition trim :: "jstring \<Rightarrow> jstring" where
  "trim s = rev (dropWhile is_space (rev (dropWhile is_space s)))"

text \<open>
  \<open>split_first pat s\<close> cuts \<open>s\<close> at the leftmost occurrence of the literal \<open>pat\<close>: the
  text before the occurrence and the text after it.
\<close>

fun split_first :: "'a list \<Rightarrow> 'a list \<Rightarrow> ('a list \<times> 'a list) option" where
  "split_first pat [] = (if pat = [] then Some ([], []) else None)"
| "split_first pat (c # cs) =
     (if prefix pat (c # cs) then Some ([], drop (length pat) (c # cs))
      else (case split_first pat cs of
              None \<Rightarrow> None
            | Some (pre, post) \<Rightarrow> Some (c # pre, post)))"

section \<open>rss-parser.ts\<close>

subsection \<open>Slugs\<close>

text \<open>
  \<open>toLowerCase\<close> followed by \<open>replace(/[^a-z0-9]+/g, '-')\<close>. Lower-casing maps \<open>A..Z\<close>
  to \<open>a..z\<close>; of the code units outside ASCII only U+0130 (to \<open>i\<close> U+0307) and U+212A
  (to \<open>k\<close>) have a lower case that contains an ASCII letter or digit, every other one
  stays outside \<open>[a-z0-9]\<close> and is kept here as it is, since the replacement that follows
  turns it into a hyphen either way.
\<close>

definition toLowerCase :: "jstring \<Rightarrow> jstring" where
  "toLowerCase s =
     concat (map (\<lambda>c. if 0x41 \<le> c \<and> c \<le> 0x5A then [c + 0x20]
                       else if c = 0x130 then [0x69, 0x307]
                       else if c = 0x212A then [0x6B]
                       else [c]) s)"

definition is_alnum :: "unit16 \<Rightarrow> bool" where
  "is_alnum c \<longleftrightarrow> (0x61 \<le> c \<and> c \<le> 0x7A) \<or> (0x30 \<le> c \<and> c \<le> 0x39)"

text \<open>\<open>replace(/[^a-z0-9]+/g, '-')\<close>: every maximal run outside \<open>[a-z0-9]\<close> becomes one hyphen.\<close>

fun hyphenate :: "jstring \<Rightarrow> jstring" where
  "hyphenate [] = []"
| "hyphenate [c] = (if is_alnum c then [c] else [0x2D])"
| "hyphenate (c # d # cs) =
     (if is_alnum c then c # hyphenate (d # cs)
      else if is_alnum d then 0x2D # hyphenate (d # cs)
      else hyphenate (d # cs))"

text \<open>\<open>replace(/^-+|-+$/g, '')\<close>: the leading and the trailing run of hyphens are removed.\<close>

definition strip_hyphens :: "jstring \<Rightarrow> jstring" where
  "strip_hyphens s = rev (dropWhile (\<lambda>c. c = 0x2D) (rev (dropWhile (\<lambda>c. c = 0x2D) s)))"

definition generateSlug :: "jstring \<Rightarrow> jstring" where
  "generateSlug title = strip_hyphens (hyphenate (toLowerCase title))"

text \<open>
  \<open>url.match(/blog\.cloudflare\.com\/([^/]+)/)\<close>: the leftmost position at which the
  literal host and slash are followed by at least one code unit other than \<open>/\<close>; the
  group is the longest run of such units.
\<close>

fun match_blog_url :: "jstring \<Rightarrow> jstring option" where
  "match_blog_url [] = None"
| "match_blog_url (c # cs) =
     (let host = js ''blog.cloudflare.com/'';
          grp = takeWhile (\<lambda>x. x \<noteq> 0x2F) (drop (length host) (c # cs))
      in if prefix host (c # cs) \<and> grp \<noteq> [] then Some grp else match_blog_url cs)"

text \<open>\<open>replace(/\/$/, '')\<close>: one slash at the very end is removed.\<close>

definition strip_trailing_slash :: "jstring \<Rightarrow> jstring" where
  "strip_trailing_slash s = (if s \<noteq> [] \<and> last s = 0x2F then butlast s else s)"

definition extractSlugFromUrl :: "jstring \<Rightarrow> jstring" where
  "extractSlugFromUrl url =
     (case match_blog_url url of
        Some grp \<Rightarrow> if grp \<noteq> [] then strip_trailing_slash grp else []
      | None \<Rightarrow> [])"

subsection \<open>Regular expressions of the parser\<close>

text \<open>
  The three regular expressions the parser builds, each with one capture group:
  \<^item> \<open>ItemRx\<close> is \<^verbatim>\<open>/<item>([\s\S]*?)<\/item>/g\<close>;
  \<^item> \<open>CdataRx tag\<close> is \<^verbatim>\<open><TAG><!\[CDATA\[(.*?)\]\]><\/TAG>\<close> with flag \<open>s\<close>;
  \<^item> \<open>TextRx tag\<close> is \<^verbatim>\<open><TAG[^>]*>(.*?)<\/TAG>\<close> with flag \<open>s\<close>.
  The tag names the parser passes (\<open>title\<close>, \<open>link\<close>, \<open>guid\<close>, \<open>pubDate\<close>,
  \<open>description\<close>, \<open>content:encoded\<close>, \<open>category\<close>, \<open>dc:creator\<close>) hold no regular
  expression operator, so they match literally.

  \<open>rx_exec r s\<close> is the leftmost match of \<open>r\<close> in \<open>s\<close>: the capture group and the text
  after the match. The groups are lazy, so a group ends at the first closing literal after
  the opening one; \<^verbatim>\<open>[^>]*\<close> followed by \<^verbatim>\<open>>\<close> ends at the first \<^verbatim>\<open>>\<close>. When the
  leftmost opening literal has no closing literal after it, no later position has one
  either, so there is no match at all.
\<close>

datatype rx = ItemRx | CdataRx jstring | TextRx jstring

definition between :: "jstring \<Rightarrow> jstring \<Rightarrow> jstring \<Rightarrow> (jstring \<times> jstring) option" where
  "between opn cls s =
     (case split_first opn s of
        None \<Rightarrow> None
      | Some (_, r) \<Rightarrow> split_first cls r)"

fun rx_exec :: "rx \<Rightarrow> jstring \<Rightarrow> (jstring \<times> jstring) option" where
  "rx_exec ItemRx s = between (js ''<item>'') (js ''</item>'') s"
| "rx_exec (CdataRx tag) s =
     between (js ''<'' @ tag @ js ''><![CDATA['') (js '']]></'' @ tag @ js ''>'') s"
| "rx_exec (TextRx tag) s =
     (case split_first (js ''<'' @ tag) s of
        None \<Rightarrow> None
      | Some (_, r) \<Rightarrow> between (js ''>'') (js ''</'' @ tag @ js ''>'') r)"

lemma split_first_Some:
  "split_first pat s = Some (a, b) \<Longrightarrow> s = a @ pat @ b"
proof (induction s arbitrary: a b)
  case Nil
  then show ?case by (simp split: if_splits)
next
  case (Cons c cs)
  show ?case
  proof (cases "prefix pat (c # cs)")
    case True
    then obtain zs where zs: "c # cs = pat @ zs" by (auto simp: prefix_def)
    from True Cons.prems have "a = []" "b = drop (length pat) (c # cs)" by simp_all
    with zs show ?thesis by simp
  next
    case False
    with Cons.prems obtain pre where
      "split_first pat cs = Some (pre, b)" "a = c # pre"
      by (auto split: option.splits)
    with Cons.IH show ?thesis by simp
  qed
qed

lemma split_first_length:
  "split_first pat s = Some (a, b) \<Longrightarrow> length s = length a + length pat + length b"
  by (drule split_first_Some) simp

lemma between_length:
  "between opn cls s = Some (cap, rest) \<Longrightarrow> length rest + length opn + length cls \<le> length s"
  by (auto simp: between_def split: option.splits dest!: split_first_length)

lemma rx_exec_shorter:
  "rx_exec r s = Some (cap, rest) \<Longrightarrow> length rest < length s"
proof (cases r)
  case ItemRx
  assume "rx_exec r s = Some (cap, rest)"
  with ItemRx show ?thesis by (auto dest!: between_length simp: js_def)
next
  case (CdataRx tag)
  assume "rx_exec r s = Some (cap, rest)"
  with CdataRx show ?thesis by (auto dest!: between_length simp: js_def)
next
  case (TextRx tag)
  assume "rx_exec r s = Some (cap, rest)"
  with TextRx show ?thesis
    by (auto dest!: between_length split_first_length simp: js_def split: option.splits)
qed

text \<open>
  \<open>[...s.matchAll(r)]\<close>: the capture groups of the successive matches, each search
  starting where the previous match ended (no match of these expressions is empty).
\<close>

function rx_match_all :: "rx \<Rightarrow> jstring \<Rightarrow> jstring list" where
  "rx_match_all r s =
     (case rx_exec r s of
        None \<Rightarrow> []
      | Some (cap, rest) \<Rightarrow> cap # rx_match_all r rest)"
  by pat_completeness auto
termination
  by (relation "measure (\<lambda>(r, s). length s)") (auto dest: rx_exec_shorter)

declare rx_match_all.simps [simp del]

subsection \<open>Field extraction\<close>

definition extractCDATA :: "jstring \<Rightarrow> jstring \<Rightarrow> jstring" where
  "extractCDATA xml tag = (case rx_exec (CdataRx tag) xml of Some (cap, _) \<Rightarrow> cap | None \<Rightarrow> [])"

definition extractText :: "jstring \<Rightarrow> jstring \<Rightarrow> jstring" where
  "extractText xml tag = (case rx_exec (TextRx tag) xml of Some (cap, _) \<Rightarrow> cap | None \<Rightarrow> [])"

definition extractMultiple :: "jstring \<Rightarrow> jstring \<Rightarrow> jstring list" where
  "extractMultiple xml tag =
     (let matches = rx_match_all (CdataRx tag) xml
      in if length matches > 0 then matches
         else rx_match_all (TextRx tag) xml)"

text \<open>\<open>replace(/\n\s*/g, ' ')\<close>: a line feed and the white space after it become one space.\<close>

function replace_newlines :: "jstring \<Rightarrow> jstring" where
  "replace_newlines [] = []"
| "replace_newlines (c # cs) =
     (if c = 0x0A then 0x20 # replace_newlines (dropWhile is_space cs)
      else c # replace_newlines cs)"
  by pat_completeness auto
termination
  by (relation "measure length") (auto simp: length_dropWhile_le less_Suc_eq_le)

text \<open>
  \<open>cleanText\<close>. The entity decoder \<open>decodeHTMLEntities\<close> is the argument \<open>dec\<close>: it
  turns \<^verbatim>\<open>&#NNN;\<close> into \<open>String.fromCharCode(parseInt(NNN, 10))\<close>, which is floating-point
  arithmetic on long digit strings. It is built from \<open>replace\<close>, \<open>parseInt\<close> and
  \<open>String.fromCharCode\<close> only, none of which throws, so it is a total function on strings
  and everything below holds for each such function.
\<close>

definition cleanText :: "(jstring \<Rightarrow> jstring) \<Rightarrow> jstring \<Rightarrow> jstring" where
  "cleanText dec text = dec (replace_newlines (trim text))"

subsection \<open>Records and errors\<close>

record BlogPost =
  title :: jstring
  link :: jstring
  guid :: jstring
  pubDate :: jstring
  description :: jstring
  content :: jstring
  categories :: "jstring list"
  authors :: "jstring list"

text \<open>
  The exceptions of the worker: one constructor for each \<open>new Error(...)\<close> of the source,
  \<open>Thrown\<close> for an exception raised by a platform call (\<open>fetch\<close>, \<open>ai.run\<close>, the KV
  namespace, \<open>response.json()\<close>), \<open>InvalidCharacterError\<close> for the one \<open>btoa\<close> raises and
  \<open>TypeError\<close> for a property read on \<open>null\<close>.
\<close>

datatype error =
    Thrown jstring
  | FailedToFetchRSSFeed nat jstring
  | MissingRequiredFields
  | UnexpectedResponseFormat
  | SummaryTooShortOrEmpty
  | FailedToGenerateSummary "error option"
  | GitHubAPIError nat jstring
  | FailedToPublish
  | WorkersAINotConfigured
  | GitHubConfigurationMissing
  | InvalidCharacterError
  | TypeError

subsection \<open>Parsing\<close>

definition parseRSSItem :: "(jstring \<Rightarrow> jstring) \<Rightarrow> jstring \<Rightarrow> error + BlogPost" where
  "parseRSSItem dec itemXml =
     (let title' = extractCDATA itemXml (js ''title'');
          link' = extractText itemXml (js ''link'');
          guid' = extractText itemXml (js ''guid'');
          pubDate' = extractText itemXml (js ''pubDate'');
          description' = extractCDATA itemXml (js ''description'');
          content' = extractCDATA itemXml (js ''content:encoded'');
          categories' = extractMultiple itemXml (js ''category'');
          authors' = extractMultiple itemXml (js ''dc:creator'')
      in if title' = [] \<or> link' = [] \<or> guid' = [] then Inl MissingRequiredFields
         else Inr \<lparr> title = cleanText dec title',
                    link = cleanText dec link',
                    guid = cleanText dec guid',
                    pubDate = cleanText dec pubDate',
                    description = cleanText dec description',
                    content = cleanText dec content',
                    categories = map (cleanText dec) categories',
                    authors = map (cleanText dec) authors' \<rparr>)"

text \<open>The loop of \<open>parseRSSFeed\<close> over the item blocks: \<open>try { posts.push(parseRSSItem(itemXml)) } catch { }\<close>.\<close>

fun parse_items :: "(jstring \<Rightarrow> jstring) \<Rightarrow> jstring list \<Rightarrow> BlogPost list" where
  "parse_items dec [] = []"
| "parse_items dec (itemXml # items) =
     (case parseRSSItem dec itemXml of
        Inr post \<Rightarrow> post # parse_items dec items
      | Inl _ \<Rightarrow> parse_items dec items)"

definition parseRSSFeed :: "(jstring \<Rightarrow> jstring) \<Rightarrow> jstring \<Rightarrow> BlogPost list" where
  "parseRSSFeed dec xmlText = parse_items dec (rx_match_all ItemRx xmlText)"

section \<open>The platform\<close>

text \<open>
  The worker reaches the outside world through \<open>fetch\<close>, the Workers AI binding, the KV
  namespace and the clock. A platform over worlds \<open>'w\<close> gives, for each such call and each
  world, the outcome of the call and the world after it; an outcome is a value or a thrown
  exception. Nothing is assumed about these functions, so every theorem below holds
  whatever the feed, the model, GitHub and KV answer.
\<close>

datatype 'a reply = Throws error | Returns 'a

text \<open>
  What the worker reads of a parsed JSON body: whether it is \<open>null\<close> (a property read on it
  throws a \<open>TypeError\<close>), and otherwise its property \<open>sha\<close>, a string in GitHub's answers,
  when it has one.
\<close>

datatype json = JsonNull | JsonValue "jstring option"

record Response =
  status :: nat
  statusText :: jstring
  text_body :: "jstring reply"
  json :: "json reply"

definition ok :: "Response \<Rightarrow> bool" where
  "ok response \<longleftrightarrow> 200 \<le> status response \<and> status response \<le> 299"

record PutBody =
  message :: jstring
  content_base64 :: jstring
  branch :: jstring
  sha :: "jstring option"

text \<open>A request: \<open>GET\<close> of a URL with an optional bearer token, or \<open>PUT\<close> of a body to a URL.\<close>

datatype request =
    GetRequest jstring "jstring option"
  | PutRequest jstring jstring PutBody

datatype ai_response = AiObject jstring | AiString jstring | AiOther

text \<open>
  \<open>AiObject t\<close> is an object with a property \<open>response\<close> whose \<open>String(...)\<close> is \<open>t\<close>,
  \<open>AiString t\<close> a plain string, \<open>AiOther\<close> any other value.
\<close>

record ProcessedPostMetadata =
  processed :: bool
  timestamp :: jstring
  title_m :: jstring
  slug_m :: jstring
  url_m :: jstring

record ListResult =
  keys :: "jstring list"
  list_complete :: bool
  cursor :: "jstring option"

text \<open>
  The model is asked with the two prompts built from the post (\<open>getSystemPrompt\<close>,
  \<open>getUserPrompt\<close>: string operations that do not throw), so its answer is a function of
  the post and the world. \<open>kv_put\<close> receives the value before \<open>JSON.stringify\<close> and the
  \<open>expirationTtl\<close> option; \<open>kv_list\<close> the \<open>limit\<close> and the \<open>cursor\<close>, the prefix being
  \<open>post:\<close> in every call. \<open>now\<close> is \<open>new Date().toISOString()\<close>.
\<close>

record 'w platform =
  fetch :: "request \<Rightarrow> 'w \<Rightarrow> Response reply \<times> 'w"
  ai_run :: "BlogPost \<Rightarrow> 'w \<Rightarrow> ai_response reply \<times> 'w"
  kv_get :: "jstring \<Rightarrow> 'w \<Rightarrow> jstring option reply \<times> 'w"
  kv_put :: "jstring \<Rightarrow> ProcessedPostMetadata \<Rightarrow> nat option \<Rightarrow> 'w \<Rightarrow> unit reply \<times> 'w"
  kv_list :: "nat \<Rightarrow> jstring option \<Rightarrow> 'w \<Rightarrow> ListResult reply \<times> 'w"
  now :: "'w \<Rightarrow> jstring"

text \<open>The calls made so far, each with its outcome, in the order they were made.\<close>

datatype event =
    Fetch request "Response reply"
  | AiRun BlogPost "ai_response reply"
  | Sleep nat
  | KvGet jstring "jstring option reply"
  | KvPut jstring ProcessedPostMetadata "nat option" "unit reply"
  | KvList nat "jstring option" "ListResult reply"

record 'w state =
  world :: 'w
  log :: "event list"

definition call_fetch :: "'w platform \<Rightarrow> request \<Rightarrow> 'w state \<Rightarrow> Response reply \<times> 'w state" where
  "call_fetch pf req s =
     (case fetch pf req (world s) of
        (r, w) \<Rightarrow> (r, \<lparr>world = w, log = log s @ [Fetch req r]\<rparr>))"

definition call_ai :: "'w platform \<Rightarrow> BlogPost \<Rightarrow> 'w state \<Rightarrow> ai_response reply \<times> 'w state" where
  "call_ai pf post s =
     (case ai_run pf post (world s) of
        (r, w) \<Rightarrow> (r, \<lparr>world = w, log = log s @ [AiRun post r]\<rparr>))"

definition call_sleep :: "nat \<Rightarrow> 'w state \<Rightarrow> 'w state" where
  "call_sleep ms s = s\<lparr>log := log s @ [Sleep ms]\<rparr>"

definition call_kv_get :: "'w platform \<Rightarrow> jstring \<Rightarrow> 'w state \<Rightarrow> jstring option reply \<times> 'w state" where
  "call_kv_get pf key s =
     (case kv_get pf key (world s) of
        (r, w) \<Rightarrow> (r, \<lparr>world = w, log = log s @ [KvGet key r]\<rparr>))"

definition call_kv_put ::
  "'w platform \<Rightarrow> jstring \<Rightarrow> ProcessedPostMetadata \<Rightarrow> nat option \<Rightarrow> 'w state \<Rightarrow> unit reply \<times> 'w state" where
  "call_kv_put pf key v ttl s =
     (case kv_put pf key v ttl (world s) of
        (r, w) \<Rightarrow> (r, \<lparr>world = w, log = log s @ [KvPut key v ttl r]\<rparr>))"

definition call_kv_list ::
  "'w platform \<Rightarrow> nat \<Rightarrow> jstring option \<Rightarrow> 'w state \<Rightarrow> ListResult reply \<times> 'w state" where
  "call_kv_list pf lim cur s =
     (case kv_list pf lim cur (world s) of
        (r, w) \<Rightarrow> (r, \<lparr>world = w, log = log s @ [KvList lim cur r]\<rparr>))"

text \<open>Truthiness of a value that is a string, \<open>null\<close> or \<open>undefined\<close>.\<close>

definition truthy :: "jstring option \<Rightarrow> bool" where
  "truthy v = (case v of None \<Rightarrow> False | Some t \<Rightarrow> t \<noteq> [])"

section \<open>rss-parser.ts: fetching\<close>

text \<open>
  A number as \<open>parseInt\<close> returns it: \<open>NaN\<close> or an integer (\<open>-0\<close> is \<open>Num 0\<close>, both are
  falsy). Beyond \<open>2^53\<close> the source holds the nearest float; \<open>fetchBlogPosts\<close> only tests
  the number for truthiness and passes it to \<open>slice\<close>, where every value at or above the
  length of the array gives the same result.
\<close>

datatype jsnum = NaN | Num int

definition is_digit :: "unit16 \<Rightarrow> bool" where
  "is_digit c \<longleftrightarrow> 0x30 \<le> c \<and> c \<le> 0x39"

definition digits_value :: "jstring \<Rightarrow> int" where
  "digits_value ds = foldl (\<lambda>a d. 10 * a + (uint d - 48)) 0 ds"

text \<open>
  \<open>parseInt(s, 10)\<close>: leading white space is skipped, one sign is read, then the longest
  run of decimal digits; no digit gives \<open>NaN\<close>.
\<close>

definition parseInt10 :: "jstring \<Rightarrow> jsnum" where
  "parseInt10 s =
     (let t = dropWhile is_space s;
          negative = (t \<noteq> [] \<and> hd t = 0x2D);
          u = (if t \<noteq> [] \<and> (hd t = 0x2D \<or> hd t = 0x2B) then tl t else t);
          z = takeWhile is_digit u
      in if z = [] then NaN
         else Num (if negative then - digits_value z else digits_value z))"

definition truthy_num :: "jsnum option \<Rightarrow> bool" where
  "truthy_num v = (case v of None \<Rightarrow> False | Some NaN \<Rightarrow> False | Some (Num n) \<Rightarrow> n \<noteq> 0)"

text \<open>\<open>xs.slice(0, e)\<close>: a negative end counts from the end of the array.\<close>

definition slice0 :: "'a list \<Rightarrow> int \<Rightarrow> 'a list" where
  "slice0 xs e =
     take (nat (if e < 0 then max (int (length xs) + e) 0 else min e (int (length xs)))) xs"

definition fetchBlogPosts ::
  "'w platform \<Rightarrow> (jstring \<Rightarrow> jstring) \<Rightarrow> jstring \<Rightarrow> jsnum option \<Rightarrow> 'w state
     \<Rightarrow> (error + BlogPost list) \<times> 'w state" where
  "fetchBlogPosts pf dec feedUrl maxPosts s =
     (case call_fetch pf (GetRequest feedUrl None) s of
        (Throws e, s1) \<Rightarrow> (Inl e, s1)
      | (Returns response, s1) \<Rightarrow>
          if \<not> ok response
          then (Inl (FailedToFetchRSSFeed (status response) (statusText response)), s1)
          else (case text_body response of
                  Throws e \<Rightarrow> (Inl e, s1)
                | Returns xmlText \<Rightarrow>
                    (let posts = parseRSSFeed dec xmlText
                     in (Inr (if truthy_num maxPosts
                              then (case maxPosts of Some (Num n) \<Rightarrow> slice0 posts n | _ \<Rightarrow> posts)
                              else posts), s1))))"

section \<open>kv-storage.ts\<close>

definition getPostKey :: "jstring \<Rightarrow> jstring" where
  "getPostKey g = js ''post:'' @ g"

definition isPostProcessed :: "'w platform \<Rightarrow> jstring \<Rightarrow> 'w state \<Rightarrow> bool \<times> 'w state" where
  "isPostProcessed pf g s =
     (case call_kv_get pf (getPostKey g) s of
        (Returns v, s1) \<Rightarrow> (v \<noteq> None, s1)
      | (Throws e, s1) \<Rightarrow> (False, s1))"

text \<open>The argument \<open>metadata\<close> of \<open>markPostProcessed\<close>: title, slug and url.\<close>

record PostMetadata =
  title_in :: jstring
  slug_in :: jstring
  url_in :: jstring

definition markPostProcessed ::
  "'w platform \<Rightarrow> jstring \<Rightarrow> PostMetadata \<Rightarrow> nat option \<Rightarrow> 'w state \<Rightarrow> (error + unit) \<times> 'w state" where
  "markPostProcessed pf g metadata ttl s =
     (let key = getPostKey g;
          v = \<lparr> processed = True, timestamp = now pf (world s),
                title_m = title_in metadata, slug_m = slug_in metadata, url_m = url_in metadata \<rparr>;
          expirationTtl = (case ttl of None \<Rightarrow> None | Some n \<Rightarrow> if n \<noteq> 0 then Some n else None)
      in case call_kv_put pf key v expirationTtl s of
           (Returns _, s1) \<Rightarrow> (Inr (), s1)
         | (Throws e, s1) \<Rightarrow> (Inl e, s1))"

text \<open>
  The \<open>do ... while (cursor)\<close> loop of \<open>getProcessedPostCount\<close>, inside its \<open>try\<close>: an
  exception of \<open>kv.list\<close> makes the function return 0. A namespace that never reports
  \<open>list_complete\<close> keeps the loop running, which is the value \<open>None\<close>.
\<close>

partial_function (option) count_pages ::
  "'w platform \<Rightarrow> nat \<Rightarrow> jstring option \<Rightarrow> 'w state \<Rightarrow> (nat \<times> 'w state) option" where
  "count_pages pf count cur s =
     (case call_kv_list pf 1000 cur s of
        (Throws e, s1) \<Rightarrow> Some (0, s1)
      | (Returns result, s1) \<Rightarrow>
          (let count' = count + length (keys result);
               cur' = (if list_complete result then None else cursor result)
           in if truthy cur' then count_pages pf count' cur' s1 else Some (count', s1)))"

definition getProcessedPostCount :: "'w platform \<Rightarrow> 'w state \<Rightarrow> (nat \<times> 'w state) option" where
  "getProcessedPostCount pf s = count_pages pf 0 None s"

section \<open>ai-summarizer.ts\<close>

definition MAX_RETRIES :: nat where
  "MAX_RETRIES = 3"

definition RETRY_DELAY_MS :: nat where
  "RETRY_DELAY_MS = 1000"

record SummarizeOptions =
  maxLength :: "nat option"
  includeDisclaimer :: "bool option"

definition disclaimer :: jstring where
  "disclaimer =
     js ''**AI-Generated Summary**: This is an automated summary of a Cloudflare blog post created using AI. For the full details and context, please read the original post.''
     @ [0x0A, 0x0A]"

text \<open>
  The body of the \<open>try\<close> of one attempt, from the outcome of \<open>ai.run\<close> on: the shape of the
  response, \<open>trim\<close>, the length check and the disclaimer.
\<close>

definition check_summary :: "bool \<Rightarrow> jstring \<Rightarrow> error + jstring" where
  "check_summary incl t =
     (let summary = trim t
      in if summary = [] \<or> length summary < 50 then Inl SummaryTooShortOrEmpty
         else Inr (if incl then disclaimer @ summary else summary))"

definition attempt_result :: "bool \<Rightarrow> ai_response reply \<Rightarrow> error + jstring" where
  "attempt_result incl r =
     (case r of
        Throws e \<Rightarrow> Inl e
      | Returns (AiObject t) \<Rightarrow> check_summary incl t
      | Returns (AiString t) \<Rightarrow> check_summary incl t
      | Returns AiOther \<Rightarrow> Inl UnexpectedResponseFormat)"

text \<open>
  The loop \<open>for (attempt = 1; attempt <= MAX_RETRIES; attempt++)\<close> and the \<open>throw\<close> after
  it; \<open>lastError\<close> is \<open>None\<close> for \<open>null\<close>.
\<close>

function summary_loop ::
  "'w platform \<Rightarrow> BlogPost \<Rightarrow> bool \<Rightarrow> nat \<Rightarrow> error option \<Rightarrow> 'w state \<Rightarrow> (error + jstring) \<times> 'w state" where
  "summary_loop pf post incl attempt lastError s =
     (if attempt \<le> MAX_RETRIES then
        (case call_ai pf post s of
           (r, s1) \<Rightarrow>
             (case attempt_result incl r of
                Inr summary \<Rightarrow> (Inr summary, s1)
              | Inl e \<Rightarrow>
                  summary_loop pf post incl (attempt + 1) (Some e)
                    (if attempt < MAX_RETRIES then call_sleep (RETRY_DELAY_MS * attempt) s1 else s1)))
      else (Inl (FailedToGenerateSummary lastError), s))"
  by pat_completeness auto
termination
  by (relation "measure (\<lambda>(pf, post, incl, attempt, lastError, s). MAX_RETRIES + 1 - attempt)") auto

declare summary_loop.simps [simp del]

text \<open>\<open>const { includeDisclaimer = true } = options\<close>.\<close>

definition with_disclaimer :: "SummarizeOptions \<Rightarrow> bool" where
  "with_disclaimer options = (case includeDisclaimer options of None \<Rightarrow> True | Some b \<Rightarrow> b)"

definition generateSummary ::
  "'w platform \<Rightarrow> BlogPost \<Rightarrow> SummarizeOptions \<Rightarrow> 'w state \<Rightarrow> (error + jstring) \<times> 'w state" where
  "generateSummary pf post options s = summary_loop pf post (with_disclaimer options) 1 None s"

text \<open>The options \<open>{}\<close> of a call without the third argument.\<close>

definition no_options :: SummarizeOptions where
  "no_options = \<lparr> maxLength = None, includeDisclaimer = None \<rparr>"

definition fallback :: jstring where
  "fallback =
     js ''**AI-Generated Summary**: Summary generation failed. Please read the original post for full details.''"

fun generateSummaries ::
  "'w platform \<Rightarrow> BlogPost list \<Rightarrow> SummarizeOptions \<Rightarrow> 'w state \<Rightarrow> jstring list \<times> 'w state" where
  "generateSummaries pf [] options s = ([], s)"
| "generateSummaries pf (post # posts) options s =
     (case generateSummary pf post options s of
        (r, s1) \<Rightarrow>
          (case generateSummaries pf posts options s1 of
             (summaries, s2) \<Rightarrow>
               ((case r of Inr summary \<Rightarrow> summary | Inl e \<Rightarrow> fallback) # summaries, s2)))"

definition isAIAvailable :: "bool \<Rightarrow> bool" where
  "isAIAvailable ai \<longleftrightarrow> ai"

section \<open>github-publisher.ts\<close>

record GitHubConfig =
  token :: jstring
  owner :: jstring
  repo :: jstring

record BlogPostSummary =
  slug :: jstring
  title_s :: jstring
  url :: jstring
  publishedAt :: jstring
  summary :: jstring
  authors_s :: "jstring list"
  categories_s :: "jstring list"
  guid_s :: jstring

definition generateSlugForPost :: "BlogPost \<Rightarrow> jstring" where
  "generateSlugForPost post =
     (let urlSlug = extractSlugFromUrl (link post)
      in if urlSlug \<noteq> [] then urlSlug
         else strip_hyphens (hyphenate (toLowerCase (title post))))"

definition createBlogPostSummary :: "BlogPost \<Rightarrow> jstring \<Rightarrow> BlogPostSummary" where
  "createBlogPostSummary post summary' =
     \<lparr> slug = generateSlugForPost post,
       title_s = title post,
       url = link post,
       publishedAt = pubDate post,
       summary = summary',
       authors_s = authors post,
       categories_s = categories post,
       guid_s = guid post \<rparr>"

subsection \<open>\<open>JSON.stringify(postSummary, null, 2)\<close> and \<open>btoa\<close>\<close>

definition hex_digit :: "nat \<Rightarrow> unit16" where
  "hex_digit n = (if n < 10 then of_nat (48 + n) else of_nat (87 + n))"

definition unicode_escape :: "unit16 \<Rightarrow> jstring" where
  "unicode_escape c =
     js [CHR 0x5C, CHR ''u''] @
     [hex_digit (unat c div 4096), hex_digit (unat c div 256 mod 16),
      hex_digit (unat c div 16 mod 16), hex_digit (unat c mod 16)]"

definition escape_unit :: "unit16 \<Rightarrow> jstring" where
  "escape_unit c =
     (if c = 0x08 then js [CHR 0x5C, CHR ''b'']
      else if c = 0x09 then js [CHR 0x5C, CHR ''t'']
      else if c = 0x0A then js [CHR 0x5C, CHR ''n'']
      else if c = 0x0C then js [CHR 0x5C, CHR ''f'']
      else if c = 0x0D then js [CHR 0x5C, CHR ''r'']
      else if c = 0x22 then js [CHR 0x5C, CHR 0x22]
      else if c = 0x5C then js [CHR 0x5C, CHR 0x5C]
      else if c < 0x20 then unicode_escape c
      else [c])"

definition is_high_surrogate :: "unit16 \<Rightarrow> bool" where
  "is_high_surrogate c \<longleftrightarrow> 0xD800 \<le> c \<and> c \<le> 0xDBFF"

definition is_low_surrogate :: "unit16 \<Rightarrow> bool" where
  "is_low_surrogate c \<longleftrightarrow> 0xDC00 \<le> c \<and> c \<le> 0xDFFF"

text \<open>
  The characters of a JSON string: a surrogate pair is copied, a surrogate without its
  partner is written as an escape, every other unit is escaped or copied by \<open>escape_unit\<close>.
\<close>

fun quote_units :: "jstring \<Rightarrow> jstring" where
  "quote_units [] = []"
| "quote_units [c] =
     (if is_high_surrogate c \<or> is_low_surrogate c then unicode_escape c else escape_unit c)"
| "quote_units (c # d # cs) =
     (if is_high_surrogate c \<and> is_low_surrogate d then c # d # quote_units cs
      else if is_high_surrogate c \<or> is_low_surrogate c then unicode_escape c @ quote_units (d # cs)
      else escape_unit c @ quote_units (d # cs))"

definition quoteJSON :: "jstring \<Rightarrow> jstring" where
  "quoteJSON t = [0x22] @ quote_units t @ [0x22]"

fun join :: "jstring \<Rightarrow> jstring list \<Rightarrow> jstring" where
  "join sep [] = []"
| "join sep [x] = x"
| "join sep (x # y # ys) = x @ sep @ join sep (y # ys)"

text \<open>An array of strings that is the value of a property of the top-level object, with indentation 2.\<close>

definition stringify_array :: "jstring list \<Rightarrow> jstring" where
  "stringify_array xs =
     (if xs = [] then js ''[]''
      else js ''['' @ [0x0A] @
           join (js '','' @ [0x0A]) (map (\<lambda>x. js ''    '' @ quoteJSON x) xs) @
           [0x0A] @ js ''  ]'')"

definition property :: "string \<Rightarrow> jstring \<Rightarrow> jstring" where
  "property name v = js ''  '' @ quoteJSON (js name) @ js '': '' @ v"

definition stringify_summary :: "BlogPostSummary \<Rightarrow> jstring" where
  "stringify_summary p =
     js ''{'' @ [0x0A] @
     join (js '','' @ [0x0A])
       [property ''slug'' (quoteJSON (slug p)),
        property ''title'' (quoteJSON (title_s p)),
        property ''url'' (quoteJSON (url p)),
        property ''publishedAt'' (quoteJSON (publishedAt p)),
        property ''summary'' (quoteJSON (summary p)),
        property ''authors'' (stringify_array (authors_s p)),
        property ''categories'' (stringify_array (categories_s p)),
        property ''guid'' (quoteJSON (guid_s p))] @
     [0x0A] @ js ''}''"

definition base64_char :: "nat \<Rightarrow> unit16" where
  "base64_char n =
     (if n < 26 then of_nat (65 + n)
      else if n < 52 then of_nat (71 + n)
      else if n < 62 then of_nat (n - 4)
      else if n = 62 then 0x2B
      else 0x2F)"

fun base64_encode :: "nat list \<Rightarrow> jstring" where
  "base64_encode [] = []"
| "base64_encode [a] =
     [base64_char (a div 4), base64_char (a mod 4 * 16), 0x3D, 0x3D]"
| "base64_encode [a, b] =
     [base64_char (a div 4), base64_char (a mod 4 * 16 + b div 16),
      base64_char (b mod 16 * 4), 0x3D]"
| "base64_encode (a # b # c # bs) =
     [base64_char (a div 4), base64_char (a mod 4 * 16 + b div 16),
      base64_char (b mod 16 * 4 + c div 64), base64_char (c mod 64)] @ base64_encode bs"

text \<open>\<open>btoa\<close> throws an \<open>InvalidCharacterError\<close> on a string with a code unit above \<open>0xFF\<close>.\<close>

definition latin1 :: "jstring \<Rightarrow> bool" where
  "latin1 t = list_all (\<lambda>c. c \<le> 0xFF) t"

definition btoa :: "jstring \<Rightarrow> error + jstring" where
  "btoa t = (if latin1 t then Inr (base64_encode (map unat t)) else Inl InvalidCharacterError)"

subsection \<open>Publishing\<close>

definition contents_url :: "GitHubConfig \<Rightarrow> jstring \<Rightarrow> jstring" where
  "contents_url config filePath =
     js ''https://api.github.com/repos/'' @ owner config @ js ''/'' @ repo config @
     js ''/contents/'' @ filePath"

text \<open>The \<open>try\<close> of \<open>getFileSha\<close>. The result \<open>None\<close> is \<open>null\<close> or \<open>undefined\<close>.\<close>

definition getFileSha_try ::
  "'w platform \<Rightarrow> GitHubConfig \<Rightarrow> jstring \<Rightarrow> 'w state \<Rightarrow> (error + jstring option) \<times> 'w state" where
  "getFileSha_try pf config filePath s =
     (case call_fetch pf (GetRequest (contents_url config filePath) (Some (token config))) s of
        (Throws e, s1) \<Rightarrow> (Inl e, s1)
      | (Returns response, s1) \<Rightarrow>
          if status response = 404 then (Inr None, s1)
          else if \<not> ok response
          then (Inl (GitHubAPIError (status response) (statusText response)), s1)
          else (case json response of
                  Throws e \<Rightarrow> (Inl e, s1)
                | Returns JsonNull \<Rightarrow> (Inl TypeError, s1)
                | Returns (JsonValue data_sha) \<Rightarrow> (Inr data_sha, s1)))"

definition getFileSha ::
  "'w platform \<Rightarrow> GitHubConfig \<Rightarrow> jstring \<Rightarrow> 'w state \<Rightarrow> jstring option \<times> 'w state" where
  "getFileSha pf config filePath s =
     (case getFileSha_try pf config filePath s of
        (Inr v, s1) \<Rightarrow> (v, s1)
      | (Inl e, s1) \<Rightarrow> (None, s1))"

definition file_path :: "BlogPostSummary \<Rightarrow> jstring" where
  "file_path postSummary = js ''site/content/posts/'' @ slug postSummary @ js ''.json''"

definition put_body :: "jstring option \<Rightarrow> BlogPostSummary \<Rightarrow> jstring \<Rightarrow> PutBody" where
  "put_body existingSha postSummary base64Content =
     \<lparr> message =
         (if truthy existingSha
          then js ''chore: update summary for '' @ [0x22] @ title_s postSummary @ [0x22]
          else js ''feat: add summary for '' @ [0x22] @ title_s postSummary @ [0x22]),
       content_base64 = base64Content,
       branch = js ''main'',
       sha = (if truthy existingSha then existingSha else None) \<rparr>"

text \<open>
  The \<open>try\<close> of \<open>publishToGitHub\<close>. On a status outside 200 to 299 the source reads
  \<open>response.text()\<close> for the message of its error; whether that read returns or throws, an
  exception reaches the \<open>catch\<close>.
\<close>

definition publishToGitHub_try ::
  "'w platform \<Rightarrow> GitHubConfig \<Rightarrow> BlogPostSummary \<Rightarrow> 'w state \<Rightarrow> (error + unit) \<times> 'w state" where
  "publishToGitHub_try pf config postSummary s =
     (case getFileSha pf config (file_path postSummary) s of
        (existingSha, s1) \<Rightarrow>
          (case btoa (stringify_summary postSummary) of
             Inl e \<Rightarrow> (Inl e, s1)
           | Inr base64Content \<Rightarrow>
               (case call_fetch pf
                       (PutRequest (contents_url config (file_path postSummary)) (token config)
                          (put_body existingSha postSummary base64Content)) s1 of
                  (Throws e, s2) \<Rightarrow> (Inl e, s2)
                | (Returns response, s2) \<Rightarrow>
                    if \<not> ok response
                    then (Inl (GitHubAPIError (status response) (statusText response)), s2)
                    else (case json response of
                            Throws e \<Rightarrow> (Inl e, s2)
                          | Returns JsonNull \<Rightarrow> (Inl TypeError, s2)
                          | Returns (JsonValue v) \<Rightarrow> (Inr (), s2)))))"

definition publishToGitHub ::
  "'w platform \<Rightarrow> GitHubConfig \<Rightarrow> BlogPostSummary \<Rightarrow> 'w state \<Rightarrow> bool \<times> 'w state" where
  "publishToGitHub pf config postSummary s =
     (case publishToGitHub_try pf config postSummary s of
        (Inr u, s1) \<Rightarrow> (True, s1)
      | (Inl e, s1) \<Rightarrow> (False, s1))"

definition validateGitHubConfig :: "GitHubConfig \<Rightarrow> bool" where
  "validateGitHubConfig config \<longleftrightarrow> token config \<noteq> [] \<and> owner config \<noteq> [] \<and> repo config \<noteq> []"

section \<open>The scheduled handler\<close>

text \<open>
  The bindings and variables of \<open>Env\<close>: whether the AI binding and the KV namespace are
  there, the two variables and the three secrets.
\<close>

record Env =
  AI :: bool
  PROCESSED_POSTS :: bool
  RSS_FEED_URL :: jstring
  POSTS_TO_FETCH :: jstring
  GITHUB_TOKEN :: "jstring option"
  GITHUB_OWNER :: "jstring option"
  GITHUB_REPO :: "jstring option"

definition or_empty :: "jstring option \<Rightarrow> jstring" where
  "or_empty v = (case v of None \<Rightarrow> [] | Some t \<Rightarrow> t)"

definition createGitHubConfig :: "Env \<Rightarrow> GitHubConfig option" where
  "createGitHubConfig env =
     (let config = \<lparr> token = or_empty (GITHUB_TOKEN env),
                      owner = or_empty (GITHUB_OWNER env),
                      repo = or_empty (GITHUB_REPO env) \<rparr>
      in if validateGitHubConfig config then Some config else None)"

text \<open>Steps 3 to 5 for one post: the body of the \<open>try\<close> inside the loop.\<close>

definition process_post ::
  "'w platform \<Rightarrow> Env \<Rightarrow> GitHubConfig \<Rightarrow> BlogPost \<Rightarrow> 'w state \<Rightarrow> (error + unit) \<times> 'w state" where
  "process_post pf env githubConfig post s =
     (case generateSummary pf post no_options s of
        (Inl e, s1) \<Rightarrow> (Inl e, s1)
      | (Inr summary', s1) \<Rightarrow>
          (let postSummary = createBlogPostSummary post summary'
           in case publishToGitHub pf githubConfig postSummary s1 of
                (published, s2) \<Rightarrow>
                  if \<not> published then (Inl FailedToPublish, s2)
                  else if PROCESSED_POSTS env
                  then markPostProcessed pf (guid post)
                         \<lparr> title_in = title post, slug_in = slug postSummary, url_in = link post \<rparr>
                         None s2
                  else (Inr (), s2)))"

text \<open>
  The loop \<open>for (let i = 0; i < newPosts.length; i++)\<close> with its \<open>try\<close> and \<open>catch\<close>, on
  the posts from index \<open>i\<close> on, with the two counters.
\<close>

fun process_posts ::
  "'w platform \<Rightarrow> Env \<Rightarrow> GitHubConfig \<Rightarrow> BlogPost list \<Rightarrow> nat \<Rightarrow> nat \<Rightarrow> 'w state
     \<Rightarrow> (nat \<times> nat) \<times> 'w state" where
  "process_posts pf env githubConfig [] successCount failureCount s =
     ((successCount, failureCount), s)"
| "process_posts pf env githubConfig (post # posts) successCount failureCount s =
     (case process_post pf env githubConfig post s of
        (Inr u, s1) \<Rightarrow> process_posts pf env githubConfig posts (successCount + 1) failureCount s1
      | (Inl e, s1) \<Rightarrow> process_posts pf env githubConfig posts successCount (failureCount + 1) s1)"

text \<open>Step 2: the posts whose guid \<open>isPostProcessed\<close> does not report.\<close>

fun filter_new :: "'w platform \<Rightarrow> BlogPost list \<Rightarrow> 'w state \<Rightarrow> BlogPost list \<times> 'w state" where
  "filter_new pf [] s = ([], s)"
| "filter_new pf (post # posts) s =
     (case isPostProcessed pf (guid post) s of
        (processed', s1) \<Rightarrow>
          (case filter_new pf posts s1 of
             (newPosts, s2) \<Rightarrow> (if \<not> processed' then post # newPosts else newPosts, s2)))"

text \<open>
  Validation, step 1 and step 2: the fatal error or the new posts, \<open>None\<close> when the count
  of step 2 does not return.
\<close>

definition new_posts ::
  "'w platform \<Rightarrow> (jstring \<Rightarrow> jstring) \<Rightarrow> Env \<Rightarrow> 'w state
     \<Rightarrow> ((error + GitHubConfig \<times> BlogPost list) \<times> 'w state) option" where
  "new_posts pf dec env s =
     (if \<not> isAIAvailable (AI env) then Some (Inl WorkersAINotConfigured, s)
      else case createGitHubConfig env of
        None \<Rightarrow> Some (Inl GitHubConfigurationMissing, s)
      | Some githubConfig \<Rightarrow>
          (case fetchBlogPosts pf dec (RSS_FEED_URL env) (Some (parseInt10 (POSTS_TO_FETCH env))) s of
             (Inl e, s1) \<Rightarrow> Some (Inl e, s1)
           | (Inr posts, s1) \<Rightarrow>
               if PROCESSED_POSTS env
               then (case getProcessedPostCount pf s1 of
                       None \<Rightarrow> None
                     | Some (processedCount, s2) \<Rightarrow>
                         (case filter_new pf posts s2 of
                            (newPosts, s3) \<Rightarrow> Some (Inr (githubConfig, newPosts), s3)))
               else Some (Inr (githubConfig, posts), s1)))"

text \<open>
  \<open>scheduled\<close>: a fatal error is thrown again, otherwise the handler returns; the result
  holds the two counters it logs.
\<close>

definition scheduled ::
  "'w platform \<Rightarrow> (jstring \<Rightarrow> jstring) \<Rightarrow> Env \<Rightarrow> 'w state
     \<Rightarrow> ((error + nat \<times> nat) \<times> 'w state) option" where
  "scheduled pf dec env s =
     (case new_posts pf dec env s of
        None \<Rightarrow> None
      | Some (Inl e, s1) \<Rightarrow> Some (Inl e, s1)
      | Some (Inr (githubConfig, newPosts), s1) \<Rightarrow>
          if length newPosts = 0 then Some (Inr (0, 0), s1)
          else (case process_posts pf env githubConfig newPosts 0 0 s1 of
                  (counts, s2) \<Rightarrow> Some (Inr counts, s2)))"

section \<open>Vocabulary of the properties\<close>

text \<open>
  The calls of a run of attempts with the outcomes \<open>rs\<close>, the first of them attempt number
  \<open>i\<close>: one call of the model for each attempt and, between two consecutive attempts, a
  sleep of the attempt number times 1000 ms.
\<close>

fun attempt_events :: "BlogPost \<Rightarrow> nat \<Rightarrow> ai_response reply list \<Rightarrow> event list" where
  "attempt_events post i [] = []"
| "attempt_events post i [r] = [AiRun post r]"
| "attempt_events post i (r # r' # rs) =
     AiRun post r # Sleep (i * 1000) # attempt_events post (Suc i) (r' # rs)"

fun is_KvPut :: "event \<Rightarrow> bool" where
  "is_KvPut (KvPut k v t r) = True"
| "is_KvPut ev = False"

fun is_Put :: "event \<Rightarrow> bool" where
  "is_Put (Fetch (PutRequest u t b) r) = True"
| "is_Put ev = False"

text \<open>
  Platforms for the three-record scenario: the model's answer for a post is never usable or
  always usable (and gives an artifact \<open>btoa\<close> accepts), GitHub accepts every write, KV
  accepts every write.
\<close>

definition ai_fails :: "'w platform \<Rightarrow> BlogPost \<Rightarrow> bool" where
  "ai_fails pf post \<longleftrightarrow> (\<forall>w. isl (attempt_result True (fst (ai_run pf post w))))"

definition ai_succeeds :: "'w platform \<Rightarrow> BlogPost \<Rightarrow> bool" where
  "ai_succeeds pf post \<longleftrightarrow>
     (\<forall>w. \<exists>summ. attempt_result True (fst (ai_run pf post w)) = Inr summ \<and>
                 latin1 (stringify_summary (createBlogPostSummary post summ)))"

definition github_accepts :: "'w platform \<Rightarrow> bool" where
  "github_accepts pf \<longleftrightarrow>
     (\<forall>u t b w. \<exists>resp v. fst (fetch pf (PutRequest u t b) w) = Returns resp \<and> ok resp \<and>
                          json resp = Returns (JsonValue v))"

definition kv_accepts :: "'w platform \<Rightarrow> bool" where
  "kv_accepts pf \<longleftrightarrow> (\<forall>k v t w. fst (kv_put pf k v t w) = Returns ())"

text \<open>
  In a list of calls: a successful write of an artifact of the post to its path, and a
  successful ledger write for the post's guid.
\<close>

definition published_in :: "event list \<Rightarrow> GitHubConfig \<Rightarrow> BlogPost \<Rightarrow> bool" where
  "published_in evs config post \<longleftrightarrow>
     (\<exists>summ existingSha base64Content resp.
        btoa (stringify_summary (createBlogPostSummary post summ)) = Inr base64Content \<and> ok resp \<and>
        Fetch (PutRequest (contents_url config (file_path (createBlogPostSummary post summ)))
                 (token config)
                 (put_body existingSha (createBlogPostSummary post summ) base64Content))
              (Returns resp) \<in> set evs)"

definition marked_in :: "event list \<Rightarrow> BlogPost \<Rightarrow> bool" where
  "marked_in evs post \<longleftrightarrow> (\<exists>v. KvPut (getPostKey (guid post)) v None (Returns ()) \<in> set evs)"

text \<open>The result of steps 3 to 5 for each post of a list in turn, from the state the one before left.\<close>

fun outcomes ::
  "'w platform \<Rightarrow> Env \<Rightarrow> GitHubConfig \<Rightarrow> BlogPost list \<Rightarrow> 'w state \<Rightarrow> (error + unit) list" where
  "outcomes pf env githubConfig [] s = []"
| "outcomes pf env githubConfig (post # posts) s =
     (case process_post pf env githubConfig post s of
        (r, s1) \<Rightarrow> r # outcomes pf env githubConfig posts s1)"


text \<open>The calls made between two states.\<close>

definition new_events :: "'w state \<Rightarrow> 'w state \<Rightarrow> event list" where
  "new_events s s' = drop (length (log s)) (log s')"

fun is_ok_Put :: "event \<Rightarrow> bool" where
  "is_ok_Put (Fetch (PutRequest u t b) (Returns resp)) = ok resp"
| "is_ok_Put ev = False"

text \<open>
  In a list of calls, every ledger write comes directly after a write to GitHub that was
  answered with a success status; \<open>prev\<close> tells whether the call before the list was one.
\<close>

fun marks_follow_puts :: "bool \<Rightarrow> event list \<Rightarrow> bool" where
  "marks_follow_puts prev [] = True"
| "marks_follow_puts prev (ev # evs) =
     ((if is_KvPut ev then prev else True) \<and> marks_follow_puts (is_ok_Put ev) evs)"

section \<open>Example platforms\<close>

text \<open>
  A feed of two items, the second without title and guid, and a platform without state
  that serves it: GitHub has no file and accepts every write, KV is empty and accepts
  every write, and the model answers every post with the same text of 56 characters,
  except the post with guid \<open>2\<close>, for which its answer has an unexpected shape.
\<close>

definition demo_item :: "string \<Rightarrow> string \<Rightarrow> string \<Rightarrow> jstring" where
  "demo_item t l g =
     js ''<item><title><![CDATA['' @ js t @ js '']]></title><link>'' @ js l @
     js ''</link><guid>'' @ js g @ js ''</guid></item>''"

definition demo_feed :: jstring where
  "demo_feed =
     js ''<rss>'' @ demo_item ''A'' ''a'' ''1'' @ js ''<item><link>x</link></item>'' @ js ''</rss>''"

definition demo_post :: "string \<Rightarrow> string \<Rightarrow> string \<Rightarrow> BlogPost" where
  "demo_post t l g =
     \<lparr> title = js t, link = js l, guid = js g, pubDate = [], description = [], content = [],
       categories = [], authors = [] \<rparr>"

definition demo_text :: jstring where
  "demo_text = js ''This post explains the change and how to adopt it today.''"

definition response_of :: "nat \<Rightarrow> jstring \<Rightarrow> json \<Rightarrow> Response" where
  "response_of st body j =
     \<lparr> status = st, statusText = [], text_body = Returns body, json = Returns j \<rparr>"

definition demo :: "unit platform" where
  "demo =
     \<lparr> fetch = (\<lambda>req w.
         (case req of
            GetRequest u None \<Rightarrow> Returns (response_of 200 demo_feed JsonNull)
          | GetRequest u (Some t) \<Rightarrow> Returns (response_of 404 [] (JsonValue None))
          | PutRequest u t b \<Rightarrow> Returns (response_of 201 [] (JsonValue None)), w)),
       ai_run = (\<lambda>post w.
         (if guid post = js ''2'' then Returns AiOther else Returns (AiString demo_text), w)),
       kv_get = (\<lambda>k w. (Returns None, w)),
       kv_put = (\<lambda>k v t w. (Returns (), w)),
       kv_list = (\<lambda>lim cur w. (Returns \<lparr> keys = [], list_complete = True, cursor = None \<rparr>, w)),
       now = (\<lambda>w. js ''2026-01-01T00:00:00.000Z'') \<rparr>"

definition demo_env :: Env where
  "demo_env =
     \<lparr> AI = True, PROCESSED_POSTS = True, RSS_FEED_URL = js ''https://blog.cloudflare.com/rss/'',
       POSTS_TO_FETCH = js ''10'', GITHUB_TOKEN = Some (js ''t''), GITHUB_OWNER = Some (js ''o''),
       GITHUB_REPO = Some (js ''r'') \<rparr>"

definition demo_config :: GitHubConfig where
  "demo_config = \<lparr> token = js ''t'', owner = js ''o'', repo = js ''r'' \<rparr>"

definition start :: "'w \<Rightarrow> 'w state" where
  "start w = \<lparr> world = w, log = [] \<rparr>"

text \<open>
  A platform whose world counts the calls of the model: the first two calls throw, every
  later one answers with an object whose \<open>response\<close> is the text between white space.
\<close>

definition flaky :: "nat platform" where
  "flaky =
     \<lparr> fetch = (\<lambda>req w. (Throws (Thrown (js ''offline'')), w)),
       ai_run = (\<lambda>post w.
         (if w < 2 then Throws (Thrown (js ''timeout''))
          else Returns (AiObject (js '' '' @ demo_text @ [0x0A])), Suc w)),
       kv_get = (\<lambda>k w. (Throws (Thrown (js ''KV down'')), w)),
       kv_put = (\<lambda>k v t w. (Throws (Thrown (js ''KV down'')), w)),
       kv_list = (\<lambda>lim cur w. (Throws (Thrown (js ''KV down'')), w)),
       now = (\<lambda>w. js ''2026-01-01T00:00:00.000Z'') \<rparr>"

text \<open>
  A platform whose world is the content store: the revision marker of each path that has
  a file. A read of a path answers 404 or the marker; a write creates the file when there
  is none and the body has no marker, replaces it when the body has the marker of the
  file, and is refused otherwise.
\<close>

definition github_store :: "(jstring \<times> jstring) list platform" where
  "github_store =
     \<lparr> fetch = (\<lambda>req w.
         (case req of
            GetRequest u t \<Rightarrow>
              (case map_of w u of
                 None \<Rightarrow> (Returns (response_of 404 [] (JsonValue None)), w)
               | Some m \<Rightarrow> (Returns (response_of 200 [] (JsonValue (Some m))), w))
          | PutRequest u t b \<Rightarrow>
              (case map_of w u of
                 None \<Rightarrow>
                   if sha b = None then (Returns (response_of 201 [] (JsonValue None)), (u, js ''r1'') # w)
                   else (Returns (response_of 422 [] (JsonValue None)), w)
               | Some m \<Rightarrow>
                   if sha b = Some m
                   then (Returns (response_of 200 [] (JsonValue None)), (u, m @ js ''+'') # w)
                   else (Returns (response_of 409 [] (JsonValue None)), w)))),
       ai_run = (\<lambda>post w. (Returns (AiString demo_text), w)),
       kv_get = (\<lambda>k w. (Returns None, w)),
       kv_put = (\<lambda>k v t w. (Returns (), w)),
       kv_list = (\<lambda>lim cur w. (Returns \<lparr> keys = [], list_complete = True, cursor = None \<rparr>, w)),
       now = (\<lambda>w. js ''2026-01-01T00:00:00.000Z'') \<rparr>"


text \<open>A post whose title is \<open>It's\<close> written with the apostrophe U+2019.\<close>

definition curly_post :: BlogPost where
  "curly_post =
     \<lparr> title = js ''It'' @ [0x2019] @ js ''s'', link = js ''https://blog.cloudflare.com/it-s/'',
       guid = js ''9'', pubDate = [], description = [], content = [], categories = [],
       authors = [] \<rparr>"








text \<open>The three records of the scenario: the model fails on the second one.\<close>

definition record1 :: BlogPost where
  "record1 = demo_post ''A'' ''https://blog.cloudflare.com/a/'' ''1''"

definition record2 :: BlogPost where
  "record2 = demo_post ''B'' ''https://blog.cloudflare.com/b/'' ''2''"

definition record3 :: BlogPost where
  "record3 = demo_post ''C'' ''https://blog.cloudflare.com/a/'' ''3''"

section \<open>Lemmas: the log and the summarizer\<close>

lemma call_fetch_log: "call_fetch pf req s = (r, s') \<Longrightarrow> log s' = log s @ [Fetch req r]"
  by (auto simp: call_fetch_def split: prod.splits)

lemma call_ai_log: "call_ai pf post s = (r, s') \<Longrightarrow> log s' = log s @ [AiRun post r]"
  by (auto simp: call_ai_def split: prod.splits)

lemma call_sleep_log: "log (call_sleep ms s) = log s @ [Sleep ms]"
  by (simp add: call_sleep_def)

lemma call_kv_get_log: "call_kv_get pf k s = (r, s') \<Longrightarrow> log s' = log s @ [KvGet k r]"
  by (auto simp: call_kv_get_def split: prod.splits)

lemma call_kv_put_log: "call_kv_put pf k v t s = (r, s') \<Longrightarrow> log s' = log s @ [KvPut k v t r]"
  by (auto simp: call_kv_put_def split: prod.splits)

lemma summary_loop_unroll:
  "summary_loop pf post incl (Suc 0) None s =
     (case call_ai pf post s of
        (r1, s1) \<Rightarrow>
          (case attempt_result incl r1 of
             Inr t \<Rightarrow> (Inr t, s1)
           | Inl e1 \<Rightarrow>
               (case call_ai pf post (call_sleep 1000 s1) of
                  (r2, s2) \<Rightarrow>
                    (case attempt_result incl r2 of
                       Inr t \<Rightarrow> (Inr t, s2)
                     | Inl e2 \<Rightarrow>
                         (case call_ai pf post (call_sleep 2000 s2) of
                            (r3, s3) \<Rightarrow>
                              (case attempt_result incl r3 of
                                 Inr t \<Rightarrow> (Inr t, s3)
                               | Inl e3 \<Rightarrow> (Inl (FailedToGenerateSummary (Some e3)), s3)))))))"
  by (simp add: summary_loop.simps MAX_RETRIES_def RETRY_DELAY_MS_def split: prod.splits sum.splits)

lemma length_trim_le: "length (trim t) \<le> length t"
proof -
  have "length (trim t) \<le> length (dropWhile is_space t)"
    unfolding trim_def using length_dropWhile_le [of is_space "rev (dropWhile is_space t)"] by simp
  also have "\<dots> \<le> length t" by (rule length_dropWhile_le)
  finally show ?thesis .
qed

lemma check_summary_short: "length t < 50 \<Longrightarrow> check_summary incl t = Inl SummaryTooShortOrEmpty"
  using length_trim_le [of t] by (simp add: check_summary_def Let_def)

text \<open>An answer of at least 50 characters after trimming is a successful attempt.\<close>

lemma check_summary_long:
  "50 \<le> length (trim t) \<Longrightarrow>
     check_summary incl t = Inr (if incl then disclaimer @ trim t else trim t)"
  by (auto simp: check_summary_def Let_def)

lemma check_summary_trim_short:
  "length (trim t) < 50 \<Longrightarrow> check_summary incl t = Inl SummaryTooShortOrEmpty"
  by (simp add: check_summary_def Let_def)

lemma attempt_result_Inr:
  "attempt_result incl r = Inr summ \<Longrightarrow>
     \<exists>t. (r = Returns (AiObject t) \<or> r = Returns (AiString t)) \<and> 50 \<le> length (trim t) \<and>
         summ = (if incl then disclaimer @ trim t else trim t)"
  by (auto simp: attempt_result_def check_summary_def Let_def
        split: reply.splits ai_response.splits if_splits)

text \<open>The outcomes of the attempts of one call of the summarizer, and what it returns.\<close>

lemma generateSummary_attempts:
  assumes "generateSummary pf post options s = (res, s')"
  shows "\<exists>rs. log s' = log s @ attempt_events post 1 rs \<and> 1 \<le> length rs \<and> length rs \<le> 3 \<and>
              list_all (\<lambda>r. isl (attempt_result (with_disclaimer options) r)) (butlast rs) \<and>
              (case res of
                 Inr summ \<Rightarrow> attempt_result (with_disclaimer options) (last rs) = Inr summ
               | Inl e \<Rightarrow> length rs = 3 \<and>
                   (\<exists>e3. attempt_result (with_disclaimer options) (last rs) = Inl e3 \<and>
                         e = FailedToGenerateSummary (Some e3)))"
proof -
  let ?incl = "with_disclaimer options"
  obtain r1 s1 where c1: "call_ai pf post s = (r1, s1)" by (cases "call_ai pf post s")
  obtain r2 s2 where c2: "call_ai pf post (call_sleep 1000 s1) = (r2, s2)"
    by (cases "call_ai pf post (call_sleep 1000 s1)")
  obtain r3 s3 where c3: "call_ai pf post (call_sleep 2000 s2) = (r3, s3)"
    by (cases "call_ai pf post (call_sleep 2000 s2)")
  have l1: "log s1 = log s @ [AiRun post r1]" using c1 by (rule call_ai_log)
  have l2: "log s2 = log s @ [AiRun post r1, Sleep 1000, AiRun post r2]"
    using call_ai_log [OF c2] l1 by (simp add: call_sleep_log)
  have l3: "log s3 = log s @ [AiRun post r1, Sleep 1000, AiRun post r2, Sleep 2000, AiRun post r3]"
    using call_ai_log [OF c3] l2 by (simp add: call_sleep_log)
  from assms have run: "summary_loop pf post ?incl 1 None s = (res, s')"
    by (simp add: generateSummary_def)
  show ?thesis
  proof (cases "attempt_result ?incl r1")
    case (Inr t)
    with run c1 have "res = Inr t" "s' = s1" by (simp_all add: summary_loop_unroll)
    with Inr l1 show ?thesis by (intro exI [of _ "[r1]"]) simp
  next
    case e1: (Inl e1)
    show ?thesis
    proof (cases "attempt_result ?incl r2")
      case (Inr t)
      with run c1 c2 e1 have "res = Inr t" "s' = s2" by (simp_all add: summary_loop_unroll)
      with Inr e1 l2 show ?thesis by (intro exI [of _ "[r1, r2]"]) simp
    next
      case e2: (Inl e2)
      show ?thesis
      proof (cases "attempt_result ?incl r3")
        case (Inr t)
        with run c1 c2 c3 e1 e2 have "res = Inr t" "s' = s3" by (simp_all add: summary_loop_unroll)
        with Inr e1 e2 l3 show ?thesis by (intro exI [of _ "[r1, r2, r3]"]) simp
      next
        case e3: (Inl e3)
        with run c1 c2 c3 e1 e2 have "res = Inl (FailedToGenerateSummary (Some e3))" "s' = s3"
          by (simp_all add: summary_loop_unroll)
        with e1 e2 e3 l3 show ?thesis by (intro exI [of _ "[r1, r2, r3]"]) simp
      qed
    qed
  qed
qed

lemma attempt_events_no_KvPut: "\<not> list_ex is_KvPut (attempt_events post i rs)"
  by (induction post i rs rule: attempt_events.induct) simp_all

lemma attempt_events_no_Put: "\<not> list_ex is_Put (attempt_events post i rs)"
  by (induction post i rs rule: attempt_events.induct) simp_all

lemma attempt_events_first: "rs \<noteq> [] \<Longrightarrow> AiRun post (hd rs) \<in> set (attempt_events post i rs)"
  by (induction post i rs rule: attempt_events.induct) auto

section \<open>Lemmas: the publisher\<close>

lemma getFileSha_log:
  assumes "getFileSha pf config path s = (v, s')"
  shows "\<exists>r. call_fetch pf (GetRequest (contents_url config path) (Some (token config))) s = (r, s') \<and>
             log s' = log s @ [Fetch (GetRequest (contents_url config path) (Some (token config))) r]"
proof -
  obtain r s1 where c: "call_fetch pf (GetRequest (contents_url config path) (Some (token config))) s = (r, s1)"
    by (cases "call_fetch pf (GetRequest (contents_url config path) (Some (token config))) s")
  with assms have "s' = s1"
    by (auto simp: getFileSha_def getFileSha_try_def split: reply.splits json.splits if_splits)
  with c call_fetch_log [OF c] show ?thesis by simp
qed


text \<open>The calls of \<open>publishToGitHub\<close>: the read, then at most one write, and its result.\<close>

lemma publishToGitHub_calls:
  assumes "publishToGitHub pf config a s = (published, s')"
  shows "\<exists>existingSha s1 r.
           getFileSha pf config (file_path a) s = (existingSha, s1) \<and>
           log s1 = log s @ [Fetch (GetRequest (contents_url config (file_path a)) (Some (token config))) r] \<and>
           (case btoa (stringify_summary a) of
              Inl e \<Rightarrow> s' = s1 \<and> \<not> published
            | Inr base64Content \<Rightarrow>
                (\<exists>r2. call_fetch pf
                         (PutRequest (contents_url config (file_path a)) (token config)
                            (put_body existingSha a base64Content)) s1 = (r2, s') \<and>
                      log s' = log s1 @
                        [Fetch (PutRequest (contents_url config (file_path a)) (token config)
                            (put_body existingSha a base64Content)) r2] \<and>
                      published =
                        (case r2 of
                           Throws e \<Rightarrow> False
                         | Returns response \<Rightarrow>
                             ok response \<and>
                             (case json response of Returns (JsonValue v) \<Rightarrow> True | _ \<Rightarrow> False))))"
proof -
  obtain existingSha s1 where g: "getFileSha pf config (file_path a) s = (existingSha, s1)"
    by (cases "getFileSha pf config (file_path a) s")
  from getFileSha_log [OF g] obtain r where
    l1: "log s1 = log s @ [Fetch (GetRequest (contents_url config (file_path a)) (Some (token config))) r]"
    by blast
  show ?thesis
  proof (cases "btoa (stringify_summary a)")
    case (Inl e)
    with assms g have "s' = s1 \<and> \<not> published"
      by (auto simp: publishToGitHub_def publishToGitHub_try_def)
    with g l1 Inl show ?thesis by auto
  next
    case (Inr b64)
    let ?req = "PutRequest (contents_url config (file_path a)) (token config) (put_body existingSha a b64)"
    obtain r2 s2 where c: "call_fetch pf ?req s1 = (r2, s2)" by (cases "call_fetch pf ?req s1")
    from assms g Inr c have s': "s' = s2"
      by (auto simp: publishToGitHub_def publishToGitHub_try_def split: reply.splits json.splits if_splits)
    from assms g Inr c have p: "published =
        (case r2 of Throws e \<Rightarrow> False
         | Returns response \<Rightarrow> ok response \<and> (case json response of Returns (JsonValue v) \<Rightarrow> True | _ \<Rightarrow> False))"
      by (auto simp: publishToGitHub_def publishToGitHub_try_def split: reply.splits json.splits if_splits)
    from c s' call_fetch_log [OF c] g l1 Inr p show ?thesis by auto
  qed
qed

section \<open>Lemmas: the processing of a record and the loop\<close>

lemma markPostProcessed_log:
  assumes "markPostProcessed pf g metadata ttl s = (res, s')"
  shows "\<exists>v t r. log s' = log s @ [KvPut (getPostKey g) v t r] \<and>
           res = (case r of Returns u \<Rightarrow> Inr () | Throws e \<Rightarrow> Inl e) \<and>
           r = fst (kv_put pf (getPostKey g) v t (world s)) \<and>
           (ttl = None \<longrightarrow> t = None)"
proof -
  let ?v = "\<lparr> processed = True, timestamp = now pf (world s), title_m = title_in metadata,
              slug_m = slug_in metadata, url_m = url_in metadata \<rparr>"
  let ?t = "case ttl of None \<Rightarrow> None | Some n \<Rightarrow> if n \<noteq> 0 then Some n else None"
  obtain r w where k: "kv_put pf (getPostKey g) ?v ?t (world s) = (r, w)"
    by (cases "kv_put pf (getPostKey g) ?v ?t (world s)")
  with assms have "log s' = log s @ [KvPut (getPostKey g) ?v ?t r]"
    and "res = (case r of Returns u \<Rightarrow> Inr () | Throws e \<Rightarrow> Inl e)"
    by (auto simp: markPostProcessed_def Let_def call_kv_put_def split: reply.splits)
  moreover from k have "r = fst (kv_put pf (getPostKey g) ?v ?t (world s))" by simp
  moreover have "ttl = None \<longrightarrow> ?t = None" by simp
  ultimately show ?thesis by blast
qed

lemma process_post_cases:
  assumes "process_post pf env config post s = (res, s')"
  shows "(\<exists>e. generateSummary pf post no_options s = (Inl e, s') \<and> res = Inl e) \<or>
         (\<exists>summ s1. generateSummary pf post no_options s = (Inr summ, s1) \<and>
            publishToGitHub pf config (createBlogPostSummary post summ) s1 = (False, s') \<and>
            res = Inl FailedToPublish) \<or>
         (\<exists>summ s1. generateSummary pf post no_options s = (Inr summ, s1) \<and>
            publishToGitHub pf config (createBlogPostSummary post summ) s1 = (True, s') \<and>
            \<not> PROCESSED_POSTS env \<and> res = Inr ()) \<or>
         (\<exists>summ s1 s2. generateSummary pf post no_options s = (Inr summ, s1) \<and>
            publishToGitHub pf config (createBlogPostSummary post summ) s1 = (True, s2) \<and>
            PROCESSED_POSTS env \<and>
            markPostProcessed pf (guid post)
              \<lparr> title_in = title post, slug_in = slug (createBlogPostSummary post summ),
                url_in = link post \<rparr> None s2 = (res, s'))"
proof -
  obtain r1 s1 where g: "generateSummary pf post no_options s = (r1, s1)"
    by (cases "generateSummary pf post no_options s")
  show ?thesis
  proof (cases r1)
    case (Inl e)
    with assms g show ?thesis by (simp add: process_post_def)
  next
    case (Inr summ)
    obtain b s2 where p: "publishToGitHub pf config (createBlogPostSummary post summ) s1 = (b, s2)"
      by (cases "publishToGitHub pf config (createBlogPostSummary post summ) s1")
    from assms g Inr p show ?thesis
      by (cases b; cases "PROCESSED_POSTS env") (auto simp: process_post_def Let_def)
  qed
qed

lemma generateSummary_log:
  assumes "generateSummary pf post options s = (res, s')"
  shows "\<exists>evs. log s' = log s @ evs \<and> \<not> list_ex is_KvPut evs \<and> \<not> list_ex is_Put evs \<and>
           (\<exists>r. AiRun post r \<in> set evs)"
proof -
  from generateSummary_attempts [OF assms] obtain rs where
    rs: "log s' = log s @ attempt_events post 1 rs" "1 \<le> length rs" by blast
  then have "rs \<noteq> []" by auto
  from attempt_events_first [OF this] rs(1) attempt_events_no_KvPut attempt_events_no_Put
  show ?thesis by blast
qed

lemma publishToGitHub_log:
  assumes "publishToGitHub pf config a s = (published, s')"
  shows "\<exists>evs. log s' = log s @ evs \<and> \<not> list_ex is_KvPut evs \<and>
           (published \<longrightarrow>
              (\<exists>existingSha base64Content resp evs0.
                 btoa (stringify_summary a) = Inr base64Content \<and> ok resp \<and>
                 evs = evs0 @ [Fetch (PutRequest (contents_url config (file_path a)) (token config)
                                  (put_body existingSha a base64Content)) (Returns resp)]))"
proof -
  from publishToGitHub_calls [OF assms] obtain existingSha s1 r where
    l1: "log s1 = log s @ [Fetch (GetRequest (contents_url config (file_path a)) (Some (token config))) r]"
    and c: "case btoa (stringify_summary a) of
              Inl e \<Rightarrow> s' = s1 \<and> \<not> published
            | Inr base64Content \<Rightarrow>
                (\<exists>r2. call_fetch pf
                         (PutRequest (contents_url config (file_path a)) (token config)
                            (put_body existingSha a base64Content)) s1 = (r2, s') \<and>
                      log s' = log s1 @
                        [Fetch (PutRequest (contents_url config (file_path a)) (token config)
                            (put_body existingSha a base64Content)) r2] \<and>
                      published =
                        (case r2 of
                           Throws e \<Rightarrow> False
                         | Returns response \<Rightarrow>
                             ok response \<and>
                             (case json response of Returns (JsonValue v) \<Rightarrow> True | _ \<Rightarrow> False)))"
    by blast
  show ?thesis
  proof (cases "btoa (stringify_summary a)")
    case (Inl e)
    with c l1 show ?thesis by auto
  next
    case (Inr b64)
    with c obtain r2 where
      l2: "log s' = log s1 @ [Fetch (PutRequest (contents_url config (file_path a)) (token config)
                            (put_body existingSha a b64)) r2]"
      and p: "published = (case r2 of Throws e \<Rightarrow> False
                 | Returns response \<Rightarrow> ok response \<and>
                     (case json response of Returns (JsonValue v) \<Rightarrow> True | _ \<Rightarrow> False))"
      by auto
    show ?thesis
    proof (cases published)
      case False
      with l1 l2 show ?thesis by simp
    next
      case True
      with p obtain resp where "r2 = Returns resp" "ok resp" by (auto split: reply.splits)
      with l1 l2 Inr show ?thesis by auto
    qed
  qed
qed

text \<open>The calls of the processing of one record.\<close>

lemma process_post_log:
  assumes "process_post pf env config post s = (res, s')"
  shows "\<exists>evs. log s' = log s @ evs \<and> (\<exists>r. AiRun post r \<in> set evs)"
proof -
  from process_post_cases [OF assms] show ?thesis
  proof (elim disjE exE conjE)
    fix e assume "generateSummary pf post no_options s = (Inl e, s')"
    from generateSummary_log [OF this] show ?thesis by blast
  next
    fix summ s1
    assume g: "generateSummary pf post no_options s = (Inr summ, s1)"
      and p: "publishToGitHub pf config (createBlogPostSummary post summ) s1 = (False, s')"
    from generateSummary_log [OF g] publishToGitHub_log [OF p] show ?thesis by auto
  next
    fix summ s1
    assume g: "generateSummary pf post no_options s = (Inr summ, s1)"
      and p: "publishToGitHub pf config (createBlogPostSummary post summ) s1 = (True, s')"
    from generateSummary_log [OF g] publishToGitHub_log [OF p] show ?thesis by auto
  next
    fix summ s1 s2
    assume g: "generateSummary pf post no_options s = (Inr summ, s1)"
      and p: "publishToGitHub pf config (createBlogPostSummary post summ) s1 = (True, s2)"
      and m: "markPostProcessed pf (guid post)
              \<lparr> title_in = title post, slug_in = slug (createBlogPostSummary post summ),
                url_in = link post \<rparr> None s2 = (res, s')"
    from generateSummary_log [OF g] publishToGitHub_log [OF p] markPostProcessed_log [OF m]
    show ?thesis by auto
  qed
qed

lemma outcomes_length: "length (outcomes pf env config posts s) = length posts"
  by (induction posts arbitrary: s) (auto split: prod.splits)

lemma process_posts_outcomes:
  "fst (process_posts pf env config posts sc fc s) =
     (sc + length (filter (\<lambda>r. \<not> isl r) (outcomes pf env config posts s)),
      fc + length (filter isl (outcomes pf env config posts s)))"
  by (induction posts arbitrary: sc fc s) (auto split: prod.splits sum.splits)

lemma process_posts_log:
  "\<exists>evs. log (snd (process_posts pf env config posts sc fc s)) = log s @ evs \<and>
         (\<forall>post \<in> set posts. \<exists>r. AiRun post r \<in> set evs)"
proof (induction posts arbitrary: sc fc s)
  case Nil
  then show ?case by simp
next
  case (Cons post posts)
  obtain res s1 where p: "process_post pf env config post s = (res, s1)"
    by (cases "process_post pf env config post s")
  from process_post_log [OF p] obtain evs1 r where
    e1: "log s1 = log s @ evs1" "AiRun post r \<in> set evs1" by blast
  show ?case
  proof (cases res)
    case (Inl e)
    from Cons.IH [of sc "fc + 1" s1] obtain evs2 where
      "log (snd (process_posts pf env config posts sc (fc + 1) s1)) = log s1 @ evs2"
      "\<forall>post \<in> set posts. \<exists>r. AiRun post r \<in> set evs2" by blast
    with p Inl e1 show ?thesis by (intro exI [of _ "evs1 @ evs2"]) auto
  next
    case (Inr u)
    from Cons.IH [of "sc + 1" fc s1] obtain evs2 where
      "log (snd (process_posts pf env config posts (sc + 1) fc s1)) = log s1 @ evs2"
      "\<forall>post \<in> set posts. \<exists>r. AiRun post r \<in> set evs2" by blast
    with p Inr e1 show ?thesis by (intro exI [of _ "evs1 @ evs2"]) auto
  qed
qed

lemma process_posts_append:
  "process_posts pf env config (xs @ ys) sc fc s =
     (case process_posts pf env config xs sc fc s of
        ((sc1, fc1), s1) \<Rightarrow> process_posts pf env config ys sc1 fc1 s1)"
  by (induction xs arbitrary: sc fc s) (auto split: prod.splits sum.splits)

section \<open>Lemmas: the three-record scenario and the run\<close>

lemma call_ai_reply: "call_ai pf post s = (r, s') \<Longrightarrow> r = fst (ai_run pf post (world s))"
  by (auto simp: call_ai_def split: prod.splits)

lemma call_fetch_reply: "call_fetch pf req s = (r, s') \<Longrightarrow> r = fst (fetch pf req (world s))"
  by (auto simp: call_fetch_def split: prod.splits)

lemma with_disclaimer_no_options: "with_disclaimer no_options = True"
  by (simp add: with_disclaimer_def no_options_def)

lemma ai_succeeds_generateSummary:
  assumes "ai_succeeds pf post"
  shows "\<exists>summ s1. generateSummary pf post no_options s = (Inr summ, s1) \<and>
           latin1 (stringify_summary (createBlogPostSummary post summ))"
proof -
  obtain r1 s1 where c1: "call_ai pf post s = (r1, s1)" by (cases "call_ai pf post s")
  from assms call_ai_reply [OF c1] obtain summ where
    "attempt_result True r1 = Inr summ" "latin1 (stringify_summary (createBlogPostSummary post summ))"
    by (auto simp: ai_succeeds_def)
  with c1 show ?thesis
    by (auto simp: generateSummary_def with_disclaimer_no_options summary_loop_unroll)
qed

lemma ai_fails_generateSummary:
  assumes "ai_fails pf post"
  shows "\<exists>e s1. generateSummary pf post no_options s = (Inl e, s1)"
proof -
  obtain r1 s1 where c1: "call_ai pf post s = (r1, s1)" by (cases "call_ai pf post s")
  obtain r2 s2 where c2: "call_ai pf post (call_sleep 1000 s1) = (r2, s2)"
    by (cases "call_ai pf post (call_sleep 1000 s1)")
  obtain r3 s3 where c3: "call_ai pf post (call_sleep 2000 s2) = (r3, s3)"
    by (cases "call_ai pf post (call_sleep 2000 s2)")
  from assms call_ai_reply [OF c1] obtain e1 where e1: "attempt_result True r1 = Inl e1"
    by (auto simp: ai_fails_def isl_def)
  from assms call_ai_reply [OF c2] obtain e2 where e2: "attempt_result True r2 = Inl e2"
    by (auto simp: ai_fails_def isl_def)
  from assms call_ai_reply [OF c3] obtain e3 where e3: "attempt_result True r3 = Inl e3"
    by (auto simp: ai_fails_def isl_def)
  from c1 c2 c3 e1 e2 e3 show ?thesis
    by (simp add: generateSummary_def with_disclaimer_no_options summary_loop_unroll)
qed

lemma github_accepts_publish:
  assumes "github_accepts pf" and "latin1 (stringify_summary a)"
  shows "\<exists>s'. publishToGitHub pf config a s = (True, s')"
proof -
  obtain published s' where p: "publishToGitHub pf config a s = (published, s')"
    by (cases "publishToGitHub pf config a s")
  from assms(2) obtain b64 where b: "btoa (stringify_summary a) = Inr b64" by (simp add: btoa_def)
  from publishToGitHub_calls [OF p] b obtain existingSha s1 r2 where
    c: "call_fetch pf (PutRequest (contents_url config (file_path a)) (token config)
                        (put_body existingSha a b64)) s1 = (r2, s')"
    and r: "published = (case r2 of Throws e \<Rightarrow> False
              | Returns response \<Rightarrow> ok response \<and>
                  (case json response of Returns (JsonValue v) \<Rightarrow> True | _ \<Rightarrow> False))"
    by auto
  from assms(1) call_fetch_reply [OF c] obtain resp v where
    "r2 = Returns resp" "ok resp" "json resp = Returns (JsonValue v)"
    unfolding github_accepts_def by metis
  with r have "published" by simp
  with p show ?thesis by auto
qed

lemma kv_accepts_mark:
  assumes "kv_accepts pf"
  shows "\<exists>s'. markPostProcessed pf g metadata None s = (Inr (), s')"
proof -
  obtain res s' where m: "markPostProcessed pf g metadata None s = (res, s')"
    by (cases "markPostProcessed pf g metadata None s")
  from markPostProcessed_log [OF m] assms have "res = Inr ()"
    by (auto simp: kv_accepts_def)
  with m show ?thesis by auto
qed

lemma process_post_success:
  assumes "ai_succeeds pf post" "github_accepts pf" "kv_accepts pf" "PROCESSED_POSTS env"
  shows "\<exists>s' evs. process_post pf env config post s = (Inr (), s') \<and> log s' = log s @ evs \<and>
           published_in evs config post \<and> marked_in evs post"
proof -
  from ai_succeeds_generateSummary [OF assms(1)] obtain summ s1 where
    g: "generateSummary pf post no_options s = (Inr summ, s1)"
    and l: "latin1 (stringify_summary (createBlogPostSummary post summ))" by blast
  let ?a = "createBlogPostSummary post summ"
  from github_accepts_publish [OF assms(2) l] obtain s2 where
    p: "publishToGitHub pf config ?a s1 = (True, s2)" by blast
  let ?m = "\<lparr> title_in = title post, slug_in = slug ?a, url_in = link post \<rparr>"
  from kv_accepts_mark [OF assms(3)] obtain s3 where
    m: "markPostProcessed pf (guid post) ?m None s2 = (Inr (), s3)" by blast
  from g p m assms(4) have pp: "process_post pf env config post s = (Inr (), s3)"
    by (simp add: process_post_def Let_def)
  from generateSummary_log [OF g] obtain evs1 where e1: "log s1 = log s @ evs1" by blast
  from publishToGitHub_log [OF p] obtain existingSha b64 resp evs0 where
    e2: "log s2 = log s1 @ evs0 @ [Fetch (PutRequest (contents_url config (file_path ?a)) (token config)
                                  (put_body existingSha ?a b64)) (Returns resp)]"
    and b: "btoa (stringify_summary ?a) = Inr b64" "ok resp" by auto
  from markPostProcessed_log [OF m] obtain v r where
    e3: "log s3 = log s2 @ [KvPut (getPostKey (guid post)) v None r]"
    and r: "Inr () = (case r of Returns u \<Rightarrow> Inr () | Throws e \<Rightarrow> Inl e)" by auto
  from r have r': "r = Returns ()" by (cases r) auto
  let ?evs = "evs1 @ evs0 @ [Fetch (PutRequest (contents_url config (file_path ?a)) (token config)
                  (put_body existingSha ?a b64)) (Returns resp),
                KvPut (getPostKey (guid post)) v None (Returns ())]"
  have "log s3 = log s @ ?evs" using e1 e2 e3 r' by simp
  moreover have "published_in ?evs config post"
    unfolding published_in_def using b by (intro exI [of _ summ] exI [of _ existingSha] exI [of _ b64] exI [of _ resp]) simp
  moreover have "marked_in ?evs post" unfolding marked_in_def by (intro exI [of _ v]) simp
  ultimately show ?thesis using pp by blast
qed

lemma process_post_ai_fails:
  assumes "ai_fails pf post"
  shows "\<exists>e s' evs. process_post pf env config post s = (Inl e, s') \<and> log s' = log s @ evs \<and>
           \<not> list_ex is_Put evs \<and> \<not> list_ex is_KvPut evs"
proof -
  from ai_fails_generateSummary [OF assms] obtain e s1 where
    g: "generateSummary pf post no_options s = (Inl e, s1)" by blast
  then have "process_post pf env config post s = (Inl e, s1)" by (simp add: process_post_def)
  with generateSummary_log [OF g] show ?thesis by blast
qed

lemma scheduled_after_new_posts:
  assumes "new_posts pf dec env s = Some (Inr (config, newPosts), s1)"
  shows "scheduled pf dec env s =
           Some (Inr (fst (process_posts pf env config newPosts 0 0 s1)),
                 snd (process_posts pf env config newPosts 0 0 s1))"
  using assms by (cases newPosts) (auto simp: scheduled_def split: prod.splits)

lemma isolation_general:
  assumes "new_posts pf dec env s = Some (Inr (config, newPosts), s1)"
  shows "\<exists>sc fc s2 evs. scheduled pf dec env s = Some (Inr (sc, fc), s2) \<and>
           sc = length (filter (\<lambda>r. \<not> isl r) (outcomes pf env config newPosts s1)) \<and>
           fc = length (filter isl (outcomes pf env config newPosts s1)) \<and>
           length (outcomes pf env config newPosts s1) = length newPosts \<and>
           sc + fc = length newPosts \<and>
           log s2 = log s1 @ evs \<and> (\<forall>post \<in> set newPosts. \<exists>r. AiRun post r \<in> set evs)"
proof -
  let ?outs = "outcomes pf env config newPosts s1"
  let ?res = "process_posts pf env config newPosts 0 0 s1"
  from process_posts_log [of pf env config newPosts 0 0 s1] obtain evs where
    evs: "log (snd ?res) = log s1 @ evs" "\<forall>post \<in> set newPosts. \<exists>r. AiRun post r \<in> set evs"
    by blast
  have cnt: "fst ?res = (length (filter (\<lambda>r. \<not> isl r) ?outs), length (filter isl ?outs))"
    by (simp add: process_posts_outcomes)
  have "length (filter (\<lambda>r. \<not> isl r) ?outs) + length (filter isl ?outs) = length ?outs"
    using sum_length_filter_compl [of isl ?outs] by simp
  then have tot: "length (filter (\<lambda>r. \<not> isl r) ?outs) + length (filter isl ?outs) = length newPosts"
    by (simp add: outcomes_length)
  from scheduled_after_new_posts [OF assms] cnt
  have "scheduled pf dec env s =
          Some (Inr (length (filter (\<lambda>r. \<not> isl r) ?outs), length (filter isl ?outs)), snd ?res)"
    by simp
  with evs tot outcomes_length [of pf env config newPosts s1] show ?thesis by blast
qed

lemma three_records:
  assumes "PROCESSED_POSTS env" "ai_succeeds pf p1" "ai_fails pf p2" "ai_succeeds pf p3"
    and "github_accepts pf" "kv_accepts pf"
  shows "\<exists>s2 evs1 evs2 evs3.
           process_posts pf env config [p1, p2, p3] 0 0 s1 = ((2, 1), s2) \<and>
           log s2 = log s1 @ evs1 @ evs2 @ evs3 \<and>
           published_in evs1 config p1 \<and> marked_in evs1 p1 \<and>
           \<not> list_ex is_Put evs2 \<and> \<not> list_ex is_KvPut evs2 \<and>
           published_in evs3 config p3 \<and> marked_in evs3 p3"
proof -
  from process_post_success [OF assms(2) assms(5) assms(6) assms(1)] obtain t1 evs1 where
    a: "process_post pf env config p1 s1 = (Inr (), t1)" "log t1 = log s1 @ evs1"
       "published_in evs1 config p1" "marked_in evs1 p1" by blast
  from process_post_ai_fails [OF assms(3)] obtain e t2 evs2 where
    b: "process_post pf env config p2 t1 = (Inl e, t2)" "log t2 = log t1 @ evs2"
       "\<not> list_ex is_Put evs2" "\<not> list_ex is_KvPut evs2" by blast
  from process_post_success [OF assms(4) assms(5) assms(6) assms(1)] obtain t3 evs3 where
    c: "process_post pf env config p3 t2 = (Inr (), t3)" "log t3 = log t2 @ evs3"
       "published_in evs3 config p3" "marked_in evs3 p3" by blast
  from a(1) b(1) c(1) have "process_posts pf env config [p1, p2, p3] 0 0 s1 = ((2, 1), t3)"
    by simp
  moreover have "log t3 = log s1 @ evs1 @ evs2 @ evs3" using a(2) b(2) c(2) by simp
  ultimately show ?thesis using a(3,4) b(3,4) c(3,4) by blast
qed

section \<open>Lemmas: what \<open>btoa\<close> accepts, and the example platform\<close>

lemma latin1_Nil [simp]: "latin1 []"
  by (simp add: latin1_def)

lemma latin1_Cons [simp]: "latin1 (c # cs) \<longleftrightarrow> c \<le> 0xFF \<and> latin1 cs"
  by (simp add: latin1_def)

lemma latin1_append [simp]: "latin1 (a @ b) \<longleftrightarrow> latin1 a \<and> latin1 b"
  by (simp add: latin1_def)

lemma of_nat_le_255: "(of_nat n :: 16 word) \<le> 0xFF" if "n \<le> 255"
proof -
  have "n mod 65536 = n" using that by simp
  with that show ?thesis by (simp add: word_le_nat_alt unat_of_nat)
qed

lemma of_char_le_255: "(of_char c :: 16 word) \<le> 0xFF"
proof -
  have c: "(of_char c :: nat) < 256"
    by (metis of_char_mod_256 mod_less_divisor zero_less_numeral)
  have "(of_nat (of_char c) :: 16 word) \<le> 0xFF" by (rule of_nat_le_255) (use c in linarith)
  then show ?thesis by (simp only: of_nat_of_char)
qed

lemma latin1_js [simp]: "latin1 (js t)"
  by (induction t) (simp_all add: js_def of_char_le_255)

lemma hex_digit_le: "hex_digit n \<le> 0xFF" if "n < 16"
proof (cases "n < 10")
  case True
  then have "hex_digit n = of_nat (48 + n)" by (simp only: hex_digit_def if_True)
  moreover have "(of_nat (48 + n) :: 16 word) \<le> 0xFF" by (rule of_nat_le_255) (use True in simp)
  ultimately show ?thesis by (simp only:)
next
  case False
  then have "hex_digit n = of_nat (87 + n)" by (simp only: hex_digit_def if_False)
  moreover have "(of_nat (87 + n) :: 16 word) \<le> 0xFF" by (rule of_nat_le_255) (use that in simp)
  ultimately show ?thesis by (simp only:)
qed

lemma latin1_unicode_escape [simp]: "latin1 (unicode_escape c)"
proof -
  have "unat c < 65536" using unsigned_less [of c] by simp
  then have "unat c div 4096 < 16" by simp
  then show ?thesis by (simp add: unicode_escape_def hex_digit_le)
qed

lemma latin1_escape_unit: "c \<le> 0xFF \<Longrightarrow> latin1 (escape_unit c)"
  by (simp add: escape_unit_def)

lemma latin1_quote_units: "latin1 t \<Longrightarrow> latin1 (quote_units t)"
  by (induction t rule: quote_units.induct) (auto simp: latin1_escape_unit)

lemma latin1_quoteJSON: "latin1 t \<Longrightarrow> latin1 (quoteJSON t)"
  by (simp add: quoteJSON_def latin1_quote_units)

lemma latin1_join: "latin1 sep \<Longrightarrow> list_all latin1 xs \<Longrightarrow> latin1 (join sep xs)"
  by (induction sep xs rule: join.induct) auto

lemma latin1_stringify_array: "list_all latin1 xs \<Longrightarrow> latin1 (stringify_array xs)"
  by (auto simp: stringify_array_def list_all_iff latin1_quoteJSON intro!: latin1_join)

lemma latin1_property: "latin1 v \<Longrightarrow> latin1 (property name v)"
  by (simp add: property_def latin1_quoteJSON)

text \<open>An artifact whose strings are all in the Latin-1 range has a JSON text \<open>btoa\<close> accepts.\<close>

lemma latin1_stringify_summary:
  assumes "latin1 (slug a)" "latin1 (title_s a)" "latin1 (url a)" "latin1 (publishedAt a)"
    and "latin1 (summary a)" "list_all latin1 (authors_s a)" "list_all latin1 (categories_s a)"
    and "latin1 (guid_s a)"
  shows "latin1 (stringify_summary a)"
  using assms
  by (simp add: stringify_summary_def latin1_property latin1_quoteJSON latin1_stringify_array)

lemma latin1_dropWhile: "latin1 t \<Longrightarrow> latin1 (dropWhile P t)"
  by (induction t) auto

lemma latin1_rev [simp]: "latin1 (rev t) = latin1 t"
  by (simp add: latin1_def)

lemma latin1_trim: "latin1 t \<Longrightarrow> latin1 (trim t)"
  by (simp add: trim_def latin1_dropWhile)

text \<open>Evaluation on the example platform.\<close>

lemma trim_demo_text: "trim demo_text = demo_text"
  by (simp add: demo_text_def js_def trim_def is_space_def)

lemma length_demo_text: "length demo_text = 56"
  by (simp add: demo_text_def js_def)

lemma slug_demo_post:
  "generateSlugForPost (demo_post t ''https://blog.cloudflare.com/a/'' g) = js ''a''"
  by (simp add: generateSlugForPost_def demo_post_def extractSlugFromUrl_def
        strip_trailing_slash_def js_def)

lemma ai_succeeds_demo:
  assumes "js g \<noteq> js ''2''"
  shows "ai_succeeds demo (demo_post t ''https://blog.cloudflare.com/a/'' g)"
proof -
  let ?p = "demo_post t ''https://blog.cloudflare.com/a/'' g"
  have g: "guid ?p = js g" by (simp add: demo_post_def)
  have r: "attempt_result True (Returns (AiString demo_text)) = Inr (disclaimer @ demo_text)"
    by (simp add: attempt_result_def check_summary_def trim_demo_text length_demo_text)
      (use length_demo_text in auto)
  have "latin1 (stringify_summary (createBlogPostSummary ?p (disclaimer @ demo_text)))"
    by (rule latin1_stringify_summary)
      (simp_all add: createBlogPostSummary_def slug_demo_post, simp_all add: demo_post_def disclaimer_def demo_text_def)
  with r g assms show ?thesis by (simp add: ai_succeeds_def demo_def)
qed

lemma ai_fails_demo: "ai_fails demo (demo_post t l ''2'')"
  by (simp add: ai_fails_def demo_def demo_post_def attempt_result_def)

lemma github_accepts_demo: "github_accepts demo"
  by (simp add: github_accepts_def demo_def response_of_def ok_def)

lemma kv_accepts_demo: "kv_accepts demo"
  by (simp add: kv_accepts_def demo_def)

lemma parse_demo_item:
  "parseRSSItem id (js ''<title><![CDATA[A]]></title><link>a</link><guid>1</guid>'') =
     Inr (demo_post ''A'' ''a'' ''1'')"
  by (simp add: demo_post_def js_def rx_match_all.simps between_def parseRSSItem_def
        extractCDATA_def extractText_def extractMultiple_def cleanText_def trim_def is_space_def)

lemma parse_bad_item: "parseRSSItem id (js ''<link>x</link>'') = Inl MissingRequiredFields"
  by (simp add: js_def between_def parseRSSItem_def extractCDATA_def)

lemma items_demo_feed:
  "rx_match_all ItemRx demo_feed =
     [js ''<title><![CDATA[A]]></title><link>a</link><guid>1</guid>'', js ''<link>x</link>'']"
  by (simp add: demo_feed_def demo_item_def js_def rx_match_all.simps between_def)

lemma parse_demo_feed: "parseRSSFeed id demo_feed = [demo_post ''A'' ''a'' ''1'']"
  by (simp add: parseRSSFeed_def items_demo_feed parse_demo_item parse_bad_item)

lemma parseInt10_10: "parseInt10 (js ''10'') = Num 10"
  by (simp add: parseInt10_def js_def is_space_def is_digit_def digits_value_def)

lemma new_posts_demo:
  "new_posts demo id demo_env (start ()) =
     Some (Inr (demo_config, [demo_post ''A'' ''a'' ''1'']),
           \<lparr> world = (),
             log = [Fetch (GetRequest (js ''https://blog.cloudflare.com/rss/'') None)
                      (Returns (response_of 200 demo_feed JsonNull)),
                    KvList 1000 None
                      (Returns \<lparr> keys = [], list_complete = True, cursor = None \<rparr>),
                    KvGet (getPostKey (js ''1'')) (Returns None)] \<rparr>)"
proof -
  have c: "createGitHubConfig demo_env = Some demo_config"
    by (simp add: createGitHubConfig_def demo_env_def demo_config_def or_empty_def
          validateGitHubConfig_def js_def)
  have e: "AI demo_env" "PROCESSED_POSTS demo_env"
    "RSS_FEED_URL demo_env = js ''https://blog.cloudflare.com/rss/''"
    "POSTS_TO_FETCH demo_env = js ''10''"
    by (simp_all add: demo_env_def)
  have f: "fetchBlogPosts demo id (js ''https://blog.cloudflare.com/rss/'') (Some (Num 10)) (start ()) =
             (Inr [demo_post ''A'' ''a'' ''1''],
              \<lparr> world = (),
                log = [Fetch (GetRequest (js ''https://blog.cloudflare.com/rss/'') None)
                         (Returns (response_of 200 demo_feed JsonNull))] \<rparr>)"
    by (simp add: fetchBlogPosts_def call_fetch_def demo_def start_def
          response_of_def ok_def parse_demo_feed truthy_num_def slice0_def)
  have k: "getProcessedPostCount demo s =
             Some (0, \<lparr> world = (), log = log s @ [KvList 1000 None
                      (Returns \<lparr> keys = [], list_complete = True, cursor = None \<rparr>)] \<rparr>)" for s
    by (simp add: getProcessedPostCount_def count_pages.simps call_kv_list_def demo_def truthy_def)
  have n: "isPostProcessed demo g s =
             (False, \<lparr> world = (), log = log s @ [KvGet (getPostKey g) (Returns None)] \<rparr>)" for g s
    by (simp add: isPostProcessed_def call_kv_get_def demo_def)
  have g: "guid (demo_post ''A'' ''a'' ''1'') = js ''1''" by (simp add: demo_post_def)
  show ?thesis
    by (simp add: new_posts_def isAIAvailable_def c e parseInt10_10 f k n g)
qed

section \<open>Lemmas: ledger writes\<close>

lemma marks_follow_puts_append:
  "marks_follow_puts prev (xs @ ys) \<longleftrightarrow>
     marks_follow_puts prev xs \<and>
     marks_follow_puts (if xs = [] then prev else is_ok_Put (last xs)) ys"
  by (induction xs arbitrary: prev) auto

lemma marks_follow_puts_no_KvPut: "\<not> list_ex is_KvPut evs \<Longrightarrow> marks_follow_puts prev evs"
  by (induction evs arbitrary: prev) auto

text \<open>The calls of the processing of one record, with the place of the ledger write.\<close>

lemma process_post_events:
  assumes "process_post pf env config post s = (res, s')"
  shows "\<exists>evs. log s' = log s @ evs \<and> evs \<noteq> [] \<and> \<not> is_KvPut (hd evs) \<and>
     (list_ex is_KvPut evs \<longrightarrow>
      (\<exists>summ s1 s2 evs0 existingSha base64Content resp v r.
         generateSummary pf post no_options s = (Inr summ, s1) \<and>
         publishToGitHub pf config (createBlogPostSummary post summ) s1 = (True, s2) \<and>
         btoa (stringify_summary (createBlogPostSummary post summ)) = Inr base64Content \<and>
         ok resp \<and> \<not> list_ex is_KvPut evs0 \<and>
         evs = evs0 @
           [Fetch (PutRequest (contents_url config (file_path (createBlogPostSummary post summ)))
                     (token config)
                     (put_body existingSha (createBlogPostSummary post summ) base64Content))
                  (Returns resp),
            KvPut (getPostKey (guid post)) v None r]))"
proof -
  have gen: "\<exists>evs. log t = log s @ evs \<and> evs \<noteq> [] \<and> \<not> is_KvPut (hd evs) \<and> \<not> list_ex is_KvPut evs"
    if "generateSummary pf post no_options s = (r, t)" for r t
  proof -
    from generateSummary_attempts [OF that] obtain rs where
      rs: "log t = log s @ attempt_events post 1 rs" "1 \<le> length rs" by blast
    then obtain r0 rs' where "rs = r0 # rs'" by (cases rs) auto
    then have "attempt_events post 1 rs \<noteq> []" "\<not> is_KvPut (hd (attempt_events post 1 rs))"
      by (cases rs'; simp)+
    with rs(1) attempt_events_no_KvPut show ?thesis by blast
  qed
  from process_post_cases [OF assms] show ?thesis
  proof (elim disjE exE conjE)
    fix e assume "generateSummary pf post no_options s = (Inl e, s')"
    from gen [OF this] show ?thesis by blast
  next
    fix summ s1
    assume g: "generateSummary pf post no_options s = (Inr summ, s1)"
      and p: "publishToGitHub pf config (createBlogPostSummary post summ) s1 = (False, s')"
    from gen [OF g] obtain evs1 where
      e1: "log s1 = log s @ evs1" "evs1 \<noteq> []" "\<not> is_KvPut (hd evs1)" "\<not> list_ex is_KvPut evs1"
      by blast
    from publishToGitHub_log [OF p] obtain evs2 where
      e2: "log s' = log s1 @ evs2" "\<not> list_ex is_KvPut evs2" by blast
    from e1 e2 show ?thesis by (intro exI [of _ "evs1 @ evs2"]) auto
  next
    fix summ s1
    assume g: "generateSummary pf post no_options s = (Inr summ, s1)"
      and p: "publishToGitHub pf config (createBlogPostSummary post summ) s1 = (True, s')"
    from gen [OF g] obtain evs1 where
      e1: "log s1 = log s @ evs1" "evs1 \<noteq> []" "\<not> is_KvPut (hd evs1)" "\<not> list_ex is_KvPut evs1"
      by blast
    from publishToGitHub_log [OF p] obtain evs2 where
      e2: "log s' = log s1 @ evs2" "\<not> list_ex is_KvPut evs2" by blast
    from e1 e2 show ?thesis by (intro exI [of _ "evs1 @ evs2"]) auto
  next
    fix summ s1 s2
    let ?a = "createBlogPostSummary post summ"
    assume g: "generateSummary pf post no_options s = (Inr summ, s1)"
      and p: "publishToGitHub pf config ?a s1 = (True, s2)"
      and m: "markPostProcessed pf (guid post)
              \<lparr> title_in = title post, slug_in = slug ?a, url_in = link post \<rparr> None s2 = (res, s')"
    from gen [OF g] obtain evs1 where
      e1: "log s1 = log s @ evs1" "evs1 \<noteq> []" "\<not> is_KvPut (hd evs1)" "\<not> list_ex is_KvPut evs1"
      by blast
    from publishToGitHub_log [OF p] obtain evs2 existingSha b64 resp evs0 where
      e2: "log s2 = log s1 @ evs2" "\<not> list_ex is_KvPut evs2"
        "btoa (stringify_summary ?a) = Inr b64" "ok resp"
        "evs2 = evs0 @ [Fetch (PutRequest (contents_url config (file_path ?a)) (token config)
                          (put_body existingSha ?a b64)) (Returns resp)]"
      by auto
    from markPostProcessed_log [OF m] obtain v r where
      e3: "log s' = log s2 @ [KvPut (getPostKey (guid post)) v None r]" by auto
    let ?put = "Fetch (PutRequest (contents_url config (file_path ?a)) (token config)
                          (put_body existingSha ?a b64)) (Returns resp)"
    let ?evs = "(evs1 @ evs0) @ [?put, KvPut (getPostKey (guid post)) v None r]"
    have l: "log s' = log s @ ?evs" using e1(1) e2(1) e2(5) e3 by simp
    have h: "?evs \<noteq> []" "\<not> is_KvPut (hd ?evs)" using e1(2,3) by simp_all
    have n0: "\<not> list_ex is_KvPut (evs1 @ evs0)" using e1(4) e2(2) e2(5) by simp
    from g p e2(3) e2(4) n0 have
      "\<exists>summ s1 s2 evs0 existingSha base64Content resp v r.
         generateSummary pf post no_options s = (Inr summ, s1) \<and>
         publishToGitHub pf config (createBlogPostSummary post summ) s1 = (True, s2) \<and>
         btoa (stringify_summary (createBlogPostSummary post summ)) = Inr base64Content \<and>
         ok resp \<and> \<not> list_ex is_KvPut evs0 \<and>
         ?evs = evs0 @
           [Fetch (PutRequest (contents_url config (file_path (createBlogPostSummary post summ)))
                     (token config)
                     (put_body existingSha (createBlogPostSummary post summ) base64Content))
                  (Returns resp),
            KvPut (getPostKey (guid post)) v None r]"
      by blast
    with l h show ?thesis by blast
  qed
qed

lemma process_post_marks:
  assumes "process_post pf env config post s = (res, s')"
  shows "\<exists>evs. log s' = log s @ evs \<and> evs \<noteq> [] \<and> marks_follow_puts prev evs"
proof -
  from process_post_events [OF assms] obtain evs where
    evs: "log s' = log s @ evs" "evs \<noteq> []" "\<not> is_KvPut (hd evs)"
    and mark: "list_ex is_KvPut evs \<longrightarrow>
      (\<exists>evs0 put resp v r. \<not> list_ex is_KvPut evs0 \<and> ok resp \<and>
         evs = evs0 @ [Fetch put (Returns resp), KvPut (getPostKey (guid post)) v None r] \<and>
         is_ok_Put (Fetch put (Returns resp)))"
    by (fastforce simp: )
  show ?thesis
  proof (cases "list_ex is_KvPut evs")
    case False
    with evs marks_follow_puts_no_KvPut show ?thesis by blast
  next
    case True
    with mark obtain evs0 put resp v r where
      m: "\<not> list_ex is_KvPut evs0"
         "evs = evs0 @ [Fetch put (Returns resp), KvPut (getPostKey (guid post)) v None r]"
         "is_ok_Put (Fetch put (Returns resp))" by blast
    have "marks_follow_puts prev evs"
      unfolding m(2) using m(1) m(3) marks_follow_puts_no_KvPut [of evs0 prev]
      by (simp add: marks_follow_puts_append)
    with evs show ?thesis by blast
  qed
qed

lemma process_posts_marks:
  "\<exists>evs. log (snd (process_posts pf env config posts sc fc s)) = log s @ evs \<and>
         marks_follow_puts prev evs"
proof (induction posts arbitrary: sc fc s prev)
  case Nil
  then show ?case by simp
next
  case (Cons post posts)
  obtain res s1 where p: "process_post pf env config post s = (res, s1)"
    by (cases "process_post pf env config post s")
  from process_post_marks [OF p] obtain evs1 where
    e1: "log s1 = log s @ evs1" "evs1 \<noteq> []" "marks_follow_puts prev evs1" by blast
  obtain sc' fc' where r: "process_posts pf env config (post # posts) sc fc s =
      process_posts pf env config posts sc' fc' s1"
    using p by (cases res) auto
  from Cons.IH [of sc' fc' s1 "is_ok_Put (last evs1)"] obtain evs2 where
    e2: "log (snd (process_posts pf env config posts sc' fc' s1)) = log s1 @ evs2"
        "marks_follow_puts (is_ok_Put (last evs1)) evs2" by blast
  have "marks_follow_puts prev (evs1 @ evs2)"
    using e1(2,3) e2(2) by (simp add: marks_follow_puts_append)
  with r e1(1) e2(1) show ?case by (intro exI [of _ "evs1 @ evs2"]) simp
qed

section \<open>Lemmas: the conditional write, and feed documents\<close>

text \<open>
  The write of \<open>publishToGitHub\<close> for an artifact \<open>btoa\<close> accepts: one read, then one
  write whose body carries the revision marker the read returned, with the message
  \<open>update\<close>, or no marker, with the message \<open>add\<close>.
\<close>

lemma publishToGitHub_conditional_write:
  assumes "latin1 (stringify_summary a)"
  shows "\<exists>r r2. new_events s (snd (publishToGitHub pf config a s)) =
           [Fetch (GetRequest (contents_url config (file_path a)) (Some (token config))) r,
            Fetch (PutRequest (contents_url config (file_path a)) (token config)
                     (put_body (fst (getFileSha pf config (file_path a) s)) a
                        (base64_encode (map unat (stringify_summary a))))) r2] \<and>
           r = fst (fetch pf (GetRequest (contents_url config (file_path a)) (Some (token config)))
                     (world s))"
proof -
  obtain published s' where p: "publishToGitHub pf config a s = (published, s')"
    by (cases "publishToGitHub pf config a s")
  from assms have b: "btoa (stringify_summary a) = Inr (base64_encode (map unat (stringify_summary a)))"
    by (simp add: btoa_def)
  from publishToGitHub_calls [OF p] obtain existingSha s1 r where
    g: "getFileSha pf config (file_path a) s = (existingSha, s1)"
    and l1: "log s1 = log s @ [Fetch (GetRequest (contents_url config (file_path a)) (Some (token config))) r]"
    and c: "case btoa (stringify_summary a) of
              Inl e \<Rightarrow> s' = s1 \<and> \<not> published
            | Inr base64Content \<Rightarrow>
                (\<exists>r2. call_fetch pf
                         (PutRequest (contents_url config (file_path a)) (token config)
                            (put_body existingSha a base64Content)) s1 = (r2, s') \<and>
                      log s' = log s1 @
                        [Fetch (PutRequest (contents_url config (file_path a)) (token config)
                            (put_body existingSha a base64Content)) r2] \<and>
                      published =
                        (case r2 of
                           Throws e \<Rightarrow> False
                         | Returns response \<Rightarrow>
                             ok response \<and>
                             (case json response of Returns (JsonValue v) \<Rightarrow> True | _ \<Rightarrow> False)))"
    by blast
  from getFileSha_log [OF g] obtain r' where
    f: "call_fetch pf (GetRequest (contents_url config (file_path a)) (Some (token config))) s = (r', s1)"
    and l1': "log s1 = log s @ [Fetch (GetRequest (contents_url config (file_path a)) (Some (token config))) r']"
    by blast
  from l1 l1' have rr: "r' = r" by simp
  from call_fetch_reply [OF f] rr
  have r: "r = fst (fetch pf (GetRequest (contents_url config (file_path a)) (Some (token config))) (world s))"
    by simp
  from c b obtain r2 where
    l2: "log s' = log s1 @
           [Fetch (PutRequest (contents_url config (file_path a)) (token config)
               (put_body existingSha a (base64_encode (map unat (stringify_summary a))))) r2]"
    by auto
  from p g l1 l2 r show ?thesis by (simp add: new_events_def)
qed


lemma split_first_prefix: "prefix pat s \<Longrightarrow> split_first pat s = Some ([], drop (length pat) s)"
  by (cases s) auto




section \<open>Lemmas: create and update, the item cap\<close>

text \<open>With a marker found the write is an update, without one it is a create.\<close>

lemma publishToGitHub_update:
  assumes "latin1 (stringify_summary a)"
    and "fst (getFileSha pf config (file_path a) s) = Some m" and "m \<noteq> []"
  shows "\<exists>r r2. new_events s (snd (publishToGitHub pf config a s)) =
           [Fetch (GetRequest (contents_url config (file_path a)) (Some (token config))) r,
            Fetch (PutRequest (contents_url config (file_path a)) (token config)
                     \<lparr> message = js ''chore: update summary for '' @ [0x22] @ title_s a @ [0x22],
                       content_base64 = base64_encode (map unat (stringify_summary a)),
                       branch = js ''main'',
                       sha = Some m \<rparr>) r2]"
  using publishToGitHub_conditional_write [OF assms(1), of s pf config] assms(2,3)
  by (auto simp: put_body_def truthy_def)


text \<open>
  On the content store, publishing an artifact twice: the first write creates the file,
  the second one replaces it, carrying the marker the first one left.
\<close>

lemma republish_performs_update:
  assumes "latin1 (stringify_summary a)"
  shows "\<exists>s1 s2.
     publishToGitHub github_store config a (start []) = (True, s1) \<and>
     publishToGitHub github_store config a s1 = (True, s2) \<and>
     log s2 =
       [Fetch (GetRequest (contents_url config (file_path a)) (Some (token config)))
          (Returns (response_of 404 [] (JsonValue None))),
        Fetch (PutRequest (contents_url config (file_path a)) (token config)
                 \<lparr> message = js ''feat: add summary for '' @ [0x22] @ title_s a @ [0x22],
                   content_base64 = base64_encode (map unat (stringify_summary a)),
                   branch = js ''main'', sha = None \<rparr>)
          (Returns (response_of 201 [] (JsonValue None))),
        Fetch (GetRequest (contents_url config (file_path a)) (Some (token config)))
          (Returns (response_of 200 [] (JsonValue (Some (js ''r1''))))),
        Fetch (PutRequest (contents_url config (file_path a)) (token config)
                 \<lparr> message = js ''chore: update summary for '' @ [0x22] @ title_s a @ [0x22],
                   content_base64 = base64_encode (map unat (stringify_summary a)),
                   branch = js ''main'', sha = Some (js ''r1'') \<rparr>)
          (Returns (response_of 200 [] (JsonValue None)))]"
proof -
  have r: "js ''r1'' \<noteq> []" by (simp add: js_def)
  have o: "ok (response_of 201 [] j)" "ok (response_of 200 [] j)" "\<not> ok (response_of 404 [] j)"
    "status (response_of n [] j) = n" "json (response_of n [] j) = Returns j" for j n
    by (simp_all add: ok_def response_of_def)
  show ?thesis
    using assms r
    by (simp add: publishToGitHub_def publishToGitHub_try_def getFileSha_def getFileSha_try_def
          call_fetch_def github_store_def btoa_def put_body_def truthy_def start_def o)
qed


lemma parseInt10_no_digits:
  assumes "t = [] \<or> (\<not> is_space (hd t) \<and> hd t \<noteq> 0x2D \<and> hd t \<noteq> 0x2B \<and> \<not> is_digit (hd t))"
  shows "parseInt10 t = NaN"
proof (cases t)
  case Nil
  then show ?thesis by (simp add: parseInt10_def)
next
  case (Cons c cs)
  with assms show ?thesis by (simp add: parseInt10_def)
qed

section \<open>Lemmas: item blocks and documents with a truncated item\<close>


























section \<open>The orchestrator\<close>

text \<open>
  Claim C1 (per-item isolation). First part: in every run whose validation, fetch and
  ledger filtering give the new posts \<open>newPosts\<close>, the handler returns, and its two
  counters are those of the loop over \<open>newPosts\<close>: each record has an outcome of its own
  (\<open>outcomes\<close>), a record whose summarization, artifact or publication (or ledger write)
  throws counts as one failure, every other one as a success, the two counters add up to
  the number of records, and the model has been called for every record, whatever happened
  to the records before it. Second part: for three records where only the summarization
  of the second one fails (each of its attempts), GitHub and KV accepting every write, the
  loop ends with 2 successes and 1 failure, records 1 and 3 are published and ledger-marked,
  and the calls for record 2 contain no write.
\<close>

theorem per_item_isolation:
  "(new_posts pf dec env s = Some (Inr (config, newPosts), s1) \<longrightarrow>
      (\<exists>sc fc s2 evs.
         scheduled pf dec env s = Some (Inr (sc, fc), s2) \<and>
         (sc, fc) = fst (process_posts pf env config newPosts 0 0 s1) \<and>
         sc = length (filter (\<lambda>r. \<not> isl r) (outcomes pf env config newPosts s1)) \<and>
         fc = length (filter isl (outcomes pf env config newPosts s1)) \<and>
         length (outcomes pf env config newPosts s1) = length newPosts \<and>
         sc + fc = length newPosts \<and>
         log s2 = log s1 @ evs \<and> (\<forall>post \<in> set newPosts. \<exists>r. AiRun post r \<in> set evs))) \<and>
   (PROCESSED_POSTS env \<and> ai_succeeds pf p1 \<and> ai_fails pf p2 \<and> ai_succeeds pf p3 \<and>
    github_accepts pf \<and> kv_accepts pf \<longrightarrow>
      (\<exists>s2 evs1 evs2 evs3.
         process_posts pf env config [p1, p2, p3] 0 0 s1 = ((2, 1), s2) \<and>
         log s2 = log s1 @ evs1 @ evs2 @ evs3 \<and>
         published_in evs1 config p1 \<and> marked_in evs1 p1 \<and>
         \<not> list_ex is_Put evs2 \<and> \<not> list_ex is_KvPut evs2 \<and>
         published_in evs3 config p3 \<and> marked_in evs3 p3))"
proof (intro conjI impI)
  assume n: "new_posts pf dec env s = Some (Inr (config, newPosts), s1)"
  from isolation_general [OF n] scheduled_after_new_posts [OF n]
  show "\<exists>sc fc s2 evs.
         scheduled pf dec env s = Some (Inr (sc, fc), s2) \<and>
         (sc, fc) = fst (process_posts pf env config newPosts 0 0 s1) \<and>
         sc = length (filter (\<lambda>r. \<not> isl r) (outcomes pf env config newPosts s1)) \<and>
         fc = length (filter isl (outcomes pf env config newPosts s1)) \<and>
         length (outcomes pf env config newPosts s1) = length newPosts \<and>
         sc + fc = length newPosts \<and>
         log s2 = log s1 @ evs \<and> (\<forall>post \<in> set newPosts. \<exists>r. AiRun post r \<in> set evs)"
    by (metis option.inject prod.inject sum.inject(2))
next
  assume a: "PROCESSED_POSTS env \<and> ai_succeeds pf p1 \<and> ai_fails pf p2 \<and> ai_succeeds pf p3 \<and>
    github_accepts pf \<and> kv_accepts pf"
  then show "\<exists>s2 evs1 evs2 evs3.
         process_posts pf env config [p1, p2, p3] 0 0 s1 = ((2, 1), s2) \<and>
         log s2 = log s1 @ evs1 @ evs2 @ evs3 \<and>
         published_in evs1 config p1 \<and> marked_in evs1 p1 \<and>
         \<not> list_ex is_Put evs2 \<and> \<not> list_ex is_KvPut evs2 \<and>
         published_in evs3 config p3 \<and> marked_in evs3 p3"
    using three_records [of env pf p1 p2 p3 config s1] by blast
qed

theorem per_item_isolation_witness:
  "new_posts demo id demo_env (start ()) =
     Some (Inr (demo_config, [demo_post ''A'' ''a'' ''1'']),
           snd (the (new_posts demo id demo_env (start ())))) \<and>
   PROCESSED_POSTS demo_env \<and> ai_succeeds demo record1 \<and> ai_fails demo record2 \<and>
   ai_succeeds demo record3 \<and> github_accepts demo \<and> kv_accepts demo \<and>
   (\<exists>sc fc s2 evs.
      scheduled demo id demo_env (start ()) = Some (Inr (sc, fc), s2) \<and>
      sc + fc = length [demo_post ''A'' ''a'' ''1''] \<and>
      log s2 = log (snd (the (new_posts demo id demo_env (start ())))) @ evs \<and>
      (\<forall>post \<in> set [demo_post ''A'' ''a'' ''1'']. \<exists>r. AiRun post r \<in> set evs)) \<and>
   (\<exists>s2 evs1 evs2 evs3.
      process_posts demo demo_env demo_config [record1, record2, record3] 0 0 (start ()) =
        ((2, 1), s2) \<and>
      log s2 = log (start ()) @ evs1 @ evs2 @ evs3 \<and>
      published_in evs1 demo_config record1 \<and> marked_in evs1 record1 \<and>
      \<not> list_ex is_Put evs2 \<and> \<not> list_ex is_KvPut evs2 \<and>
      published_in evs3 demo_config record3 \<and> marked_in evs3 record3)"
proof -
  have h1: "new_posts demo id demo_env (start ()) =
     Some (Inr (demo_config, [demo_post ''A'' ''a'' ''1'']),
           snd (the (new_posts demo id demo_env (start ()))))"
    by (simp add: new_posts_demo)
  have h2: "PROCESSED_POSTS demo_env \<and> ai_succeeds demo record1 \<and> ai_fails demo record2 \<and>
      ai_succeeds demo record3 \<and> github_accepts demo \<and> kv_accepts demo"
    by (simp add: record1_def record2_def record3_def ai_succeeds_demo ai_fails_demo
          github_accepts_demo kv_accepts_demo js_def demo_env_def)
  from per_item_isolation [of demo id demo_env "start ()" demo_config
      "[demo_post ''A'' ''a'' ''1'']" "snd (the (new_posts demo id demo_env (start ())))"
      record1 record2 record3] h1
  have c1: "\<exists>sc fc s2 evs.
      scheduled demo id demo_env (start ()) = Some (Inr (sc, fc), s2) \<and>
      sc + fc = length [demo_post ''A'' ''a'' ''1''] \<and>
      log s2 = log (snd (the (new_posts demo id demo_env (start ())))) @ evs \<and>
      (\<forall>post \<in> set [demo_post ''A'' ''a'' ''1'']. \<exists>r. AiRun post r \<in> set evs)"
    by blast
  from per_item_isolation [of demo id demo_env "start ()" demo_config
      "[demo_post ''A'' ''a'' ''1'']" "start ()" record1 record2 record3] h2
  have c2: "\<exists>s2 evs1 evs2 evs3.
      process_posts demo demo_env demo_config [record1, record2, record3] 0 0 (start ()) =
        ((2, 1), s2) \<and>
      log s2 = log (start ()) @ evs1 @ evs2 @ evs3 \<and>
      published_in evs1 demo_config record1 \<and> marked_in evs1 record1 \<and>
      \<not> list_ex is_Put evs2 \<and> \<not> list_ex is_KvPut evs2 \<and>
      published_in evs3 demo_config record3 \<and> marked_in evs3 record3"
    by blast
  from h1 h2 c1 c2 show ?thesis by blast
qed

text \<open>
  Claim C2 (no ledger mark without a successful publish). For every record and every
  state in which its processing starts: the calls of the processing are appended to the
  log; if there is a ledger write among them, then the summarizer returned a summary,
  \<open>publishToGitHub\<close> returned \<open>true\<close> for the artifact of this record and this summary, its
  write to GitHub was answered with a success status, and the ledger write is the very
  next and last call, for the key of this record's guid; if the summarizer throws, or
  \<open>publishToGitHub\<close> returns \<open>false\<close>, there is no ledger write among the calls. In the
  calls of the whole loop every ledger write comes directly after a successful write to
  GitHub.
\<close>

theorem no_ledger_mark_without_publish:
  "log (snd (process_post pf env config post s)) =
     log s @ new_events s (snd (process_post pf env config post s)) \<and>
   (list_ex is_KvPut (new_events s (snd (process_post pf env config post s))) \<longrightarrow>
      (\<exists>summ s1 s2 evs0 existingSha base64Content resp v r.
         generateSummary pf post no_options s = (Inr summ, s1) \<and>
         publishToGitHub pf config (createBlogPostSummary post summ) s1 = (True, s2) \<and>
         btoa (stringify_summary (createBlogPostSummary post summ)) = Inr base64Content \<and>
         ok resp \<and> \<not> list_ex is_KvPut evs0 \<and>
         new_events s (snd (process_post pf env config post s)) =
           evs0 @
           [Fetch (PutRequest (contents_url config (file_path (createBlogPostSummary post summ)))
                     (token config)
                     (put_body existingSha (createBlogPostSummary post summ) base64Content))
                  (Returns resp),
            KvPut (getPostKey (guid post)) v None r])) \<and>
   (isl (fst (generateSummary pf post no_options s)) \<longrightarrow>
      \<not> list_ex is_KvPut (new_events s (snd (process_post pf env config post s)))) \<and>
   (\<forall>summ s1.
      generateSummary pf post no_options s = (Inr summ, s1) \<and>
      \<not> fst (publishToGitHub pf config (createBlogPostSummary post summ) s1) \<longrightarrow>
      \<not> list_ex is_KvPut (new_events s (snd (process_post pf env config post s)))) \<and>
   marks_follow_puts False
     (new_events s (snd (process_posts pf env config posts successCount failureCount s)))"
proof -
  obtain res s' where pp: "process_post pf env config post s = (res, s')"
    by (cases "process_post pf env config post s")
  from process_post_events [OF pp] obtain evs where
    evs: "log s' = log s @ evs"
    and mark: "list_ex is_KvPut evs \<longrightarrow>
      (\<exists>summ s1 s2 evs0 existingSha base64Content resp v r.
         generateSummary pf post no_options s = (Inr summ, s1) \<and>
         publishToGitHub pf config (createBlogPostSummary post summ) s1 = (True, s2) \<and>
         btoa (stringify_summary (createBlogPostSummary post summ)) = Inr base64Content \<and>
         ok resp \<and> \<not> list_ex is_KvPut evs0 \<and>
         evs = evs0 @
           [Fetch (PutRequest (contents_url config (file_path (createBlogPostSummary post summ)))
                     (token config)
                     (put_body existingSha (createBlogPostSummary post summ) base64Content))
                  (Returns resp),
            KvPut (getPostKey (guid post)) v None r])"
    by blast
  have ne: "new_events s s' = evs" using evs by (simp add: new_events_def)
  have a: "isl (fst (generateSummary pf post no_options s)) \<longrightarrow> \<not> list_ex is_KvPut evs"
    using mark by (auto simp: isl_def)
  have b: "\<forall>summ s1. generateSummary pf post no_options s = (Inr summ, s1) \<and>
      \<not> fst (publishToGitHub pf config (createBlogPostSummary post summ) s1) \<longrightarrow>
      \<not> list_ex is_KvPut evs"
    using mark by auto
  from process_posts_marks [of pf env config posts successCount failureCount s False]
  obtain evs' where
    "log (snd (process_posts pf env config posts successCount failureCount s)) = log s @ evs'"
    "marks_follow_puts False evs'" by blast
  then have c: "marks_follow_puts False
     (new_events s (snd (process_posts pf env config posts successCount failureCount s)))"
    by (simp add: new_events_def)
  from pp evs ne mark a b c show ?thesis by simp
qed

theorem no_ledger_mark_without_publish_witness:
  "list_ex is_KvPut (new_events (start ()) (snd (process_post demo demo_env demo_config record1 (start ())))) \<and>
   (\<exists>summ s1 s2.
      generateSummary demo record1 no_options (start ()) = (Inr summ, s1) \<and>
      publishToGitHub demo demo_config (createBlogPostSummary record1 summ) s1 = (True, s2)) \<and>
   isl (fst (generateSummary demo record2 no_options (start ()))) \<and>
   \<not> list_ex is_KvPut (new_events (start ()) (snd (process_post demo demo_env demo_config record2 (start ()))))"
proof -
  have e: "PROCESSED_POSTS demo_env" by (simp add: demo_env_def)
  have a1: "ai_succeeds demo record1"
    by (simp add: record1_def ai_succeeds_demo js_def)
  from process_post_success [OF a1 github_accepts_demo kv_accepts_demo e, of demo_config "start ()"]
  obtain s' evs where p: "process_post demo demo_env demo_config record1 (start ()) = (Inr (), s')"
    "log s' = log (start ()) @ evs" "marked_in evs record1" by blast
  from p(3) obtain v where
    v: "KvPut (getPostKey (guid record1)) v None (Returns ()) \<in> set evs"
    by (auto simp: marked_in_def)
  have "is_KvPut (KvPut (getPostKey (guid record1)) v None (Returns ()))" by simp
  with v have "list_ex is_KvPut evs" unfolding list_ex_iff by blast
  with p(1,2) have h1: "list_ex is_KvPut (new_events (start ())
      (snd (process_post demo demo_env demo_config record1 (start ()))))"
    by (simp add: new_events_def)
  have "ai_fails demo record2" by (simp add: record2_def ai_fails_demo)
  from ai_fails_generateSummary [OF this, of "start ()"]
  have h2: "isl (fst (generateSummary demo record2 no_options (start ())))" by auto
  from no_ledger_mark_without_publish [of demo demo_env demo_config record1 "start ()"] h1
    no_ledger_mark_without_publish [of demo demo_env demo_config record2 "start ()"] h2
  show ?thesis by blast
qed

section \<open>The ledger\<close>

text \<open>
  Claim C3 (asymmetric ledger failure policy). For every guid, metadata, expiry and state:
  when the read of the key throws, \<open>isPostProcessed\<close> returns \<open>false\<close> and throws
  nothing; when the write of the key throws an error, \<open>markPostProcessed\<close> throws that
  error to its caller.
\<close>

theorem ledger_read_fails_open_write_fails_closed:
  "(fst (kv_get pf (getPostKey g) (world s)) = Throws e \<longrightarrow>
      fst (isPostProcessed pf g s) = False) \<and>
   (fst (kv_put pf (getPostKey g)
           \<lparr> processed = True, timestamp = now pf (world s), title_m = title_in metadata,
             slug_m = slug_in metadata, url_m = url_in metadata \<rparr>
           (case ttl of None \<Rightarrow> None | Some n \<Rightarrow> if n \<noteq> 0 then Some n else None)
           (world s)) = Throws e \<longrightarrow>
      fst (markPostProcessed pf g metadata ttl s) = Inl e)"
  by (auto simp: isPostProcessed_def markPostProcessed_def call_kv_get_def call_kv_put_def Let_def
        split: prod.splits reply.splits)

theorem ledger_read_fails_open_write_fails_closed_witness:
  "fst (kv_get flaky (getPostKey (js ''1'')) (world (start 0))) = Throws (Thrown (js ''KV down'')) \<and>
   fst (isPostProcessed flaky (js ''1'') (start 0)) = False \<and>
   fst (kv_put flaky (getPostKey (js ''1''))
          \<lparr> processed = True, timestamp = now flaky (world (start 0)), title_m = js ''A'',
            slug_m = js ''a'', url_m = js ''u'' \<rparr>
          None (world (start 0))) = Throws (Thrown (js ''KV down'')) \<and>
   fst (markPostProcessed flaky (js ''1'')
          \<lparr> title_in = js ''A'', slug_in = js ''a'', url_in = js ''u'' \<rparr> None (start 0)) =
     Inl (Thrown (js ''KV down''))"
proof -
  have h1: "fst (kv_get flaky (getPostKey (js ''1'')) (world (start 0))) =
      Throws (Thrown (js ''KV down''))"
    by (simp add: flaky_def)
  have h2: "fst (kv_put flaky (getPostKey (js ''1''))
          \<lparr> processed = True, timestamp = now flaky (world (start 0)), title_m = js ''A'',
            slug_m = js ''a'', url_m = js ''u'' \<rparr>
          None (world (start 0))) = Throws (Thrown (js ''KV down''))"
    by (simp add: flaky_def)
  from h1 h2
    ledger_read_fails_open_write_fails_closed [of flaky "js ''1''" "start 0" "Thrown (js ''KV down'')"
      "\<lparr> title_in = js ''A'', slug_in = js ''a'', url_in = js ''u'' \<rparr>" None]
  show ?thesis by simp
qed

section \<open>The summarizer\<close>

text \<open>
  Claim C4 (summarizer retry contract). An answer of the model that is empty or shorter
  than 50 characters, an answer of unexpected shape and an exception of the call are each
  a failed attempt; an answer of at least 50 characters after trimming is a valid summary:
  the attempt gives the trimmed answer, with the disclaimer in front when
  \<open>includeDisclaimer\<close> is set, and an answer of fewer than 50 characters after trimming
  fails. For every platform, record, options and state, the calls of
  \<open>generateSummary\<close> are those of between 1 and 3 attempts with a sleep of the attempt
  number times 1000 ms between consecutive attempts; every attempt but the last one
  failed; if the function returns a text, the last attempt gave an answer of at least 50
  characters after trimming and the text is that trimmed answer, with the disclaimer in
  front when \<open>includeDisclaimer\<close> is set or absent; if it throws, all 3 attempts failed and
  the error it throws is the one built from the last failure, no text being returned. So
  the first valid answer among the attempts ends the loop and is what is returned.
\<close>

theorem summarizer_retry_contract:
  "(length t < 50 \<longrightarrow>
      attempt_result incl (Returns (AiString t)) = Inl SummaryTooShortOrEmpty \<and>
      attempt_result incl (Returns (AiObject t)) = Inl SummaryTooShortOrEmpty) \<and>
   (50 \<le> length (trim u) \<longrightarrow>
      attempt_result incl (Returns (AiString u)) =
        Inr (if incl then disclaimer @ trim u else trim u) \<and>
      attempt_result incl (Returns (AiObject u)) =
        Inr (if incl then disclaimer @ trim u else trim u)) \<and>
   (length (trim v) < 50 \<longrightarrow>
      attempt_result incl (Returns (AiString v)) = Inl SummaryTooShortOrEmpty \<and>
      attempt_result incl (Returns (AiObject v)) = Inl SummaryTooShortOrEmpty) \<and>
   attempt_result incl (Returns AiOther) = Inl UnexpectedResponseFormat \<and>
   attempt_result incl (Throws e) = Inl e \<and>
   (\<exists>rs. log (snd (generateSummary pf post options s)) = log s @ attempt_events post 1 rs \<and>
         1 \<le> length rs \<and> length rs \<le> MAX_RETRIES \<and>
         list_all (\<lambda>r. isl (attempt_result (with_disclaimer options) r)) (butlast rs) \<and>
         (case fst (generateSummary pf post options s) of
            Inr summ \<Rightarrow>
              attempt_result (with_disclaimer options) (last rs) = Inr summ \<and>
              (\<exists>t'. (last rs = Returns (AiObject t') \<or> last rs = Returns (AiString t')) \<and>
                    50 \<le> length (trim t') \<and>
                    summ = (if with_disclaimer options then disclaimer @ trim t' else trim t'))
          | Inl e' \<Rightarrow>
              length rs = MAX_RETRIES \<and>
              (\<exists>e3. attempt_result (with_disclaimer options) (last rs) = Inl e3 \<and>
                    e' = FailedToGenerateSummary (Some e3))))"
proof -
  obtain res s' where g: "generateSummary pf post options s = (res, s')"
    by (cases "generateSummary pf post options s")
  from generateSummary_attempts [OF g] obtain rs where
    rs: "log s' = log s @ attempt_events post 1 rs" "1 \<le> length rs" "length rs \<le> 3"
      "list_all (\<lambda>r. isl (attempt_result (with_disclaimer options) r)) (butlast rs)"
      "case res of
         Inr summ \<Rightarrow> attempt_result (with_disclaimer options) (last rs) = Inr summ
       | Inl e \<Rightarrow> length rs = 3 \<and>
           (\<exists>e3. attempt_result (with_disclaimer options) (last rs) = Inl e3 \<and>
                 e = FailedToGenerateSummary (Some e3))"
    by blast
  have last: "case res of
            Inr summ \<Rightarrow>
              attempt_result (with_disclaimer options) (last rs) = Inr summ \<and>
              (\<exists>t'. (last rs = Returns (AiObject t') \<or> last rs = Returns (AiString t')) \<and>
                    50 \<le> length (trim t') \<and>
                    summ = (if with_disclaimer options then disclaimer @ trim t' else trim t'))
          | Inl e' \<Rightarrow>
              length rs = MAX_RETRIES \<and>
              (\<exists>e3. attempt_result (with_disclaimer options) (last rs) = Inl e3 \<and>
                    e' = FailedToGenerateSummary (Some e3))"
  proof (cases res)
    case (Inl e')
    with rs(5) show ?thesis by (simp add: MAX_RETRIES_def)
  next
    case (Inr summ)
    with rs(5) have a: "attempt_result (with_disclaimer options) (last rs) = Inr summ" by simp
    from attempt_result_Inr [OF a] a Inr show ?thesis by simp
  qed
  have short: "length t < 50 \<longrightarrow>
      attempt_result incl (Returns (AiString t)) = Inl SummaryTooShortOrEmpty \<and>
      attempt_result incl (Returns (AiObject t)) = Inl SummaryTooShortOrEmpty"
    by (simp add: attempt_result_def check_summary_short)
  have long: "50 \<le> length (trim u) \<longrightarrow>
      attempt_result incl (Returns (AiString u)) =
        Inr (if incl then disclaimer @ trim u else trim u) \<and>
      attempt_result incl (Returns (AiObject u)) =
        Inr (if incl then disclaimer @ trim u else trim u)"
    by (simp add: attempt_result_def check_summary_long)
  have trimmed: "length (trim v) < 50 \<longrightarrow>
      attempt_result incl (Returns (AiString v)) = Inl SummaryTooShortOrEmpty \<and>
      attempt_result incl (Returns (AiObject v)) = Inl SummaryTooShortOrEmpty"
    by (simp add: attempt_result_def check_summary_trim_short)
  have other: "attempt_result incl (Returns AiOther) = Inl UnexpectedResponseFormat"
    "attempt_result incl (Throws e) = Inl e"
    by (simp_all add: attempt_result_def)
  from g rs(1-4) last have loop: "\<exists>rs. log (snd (generateSummary pf post options s)) =
           log s @ attempt_events post 1 rs \<and>
         1 \<le> length rs \<and> length rs \<le> MAX_RETRIES \<and>
         list_all (\<lambda>r. isl (attempt_result (with_disclaimer options) r)) (butlast rs) \<and>
         (case fst (generateSummary pf post options s) of
            Inr summ \<Rightarrow>
              attempt_result (with_disclaimer options) (last rs) = Inr summ \<and>
              (\<exists>t'. (last rs = Returns (AiObject t') \<or> last rs = Returns (AiString t')) \<and>
                    50 \<le> length (trim t') \<and>
                    summ = (if with_disclaimer options then disclaimer @ trim t' else trim t'))
          | Inl e' \<Rightarrow>
              length rs = MAX_RETRIES \<and>
              (\<exists>e3. attempt_result (with_disclaimer options) (last rs) = Inl e3 \<and>
                    e' = FailedToGenerateSummary (Some e3)))"
    by (intro exI [of _ rs]) (simp add: MAX_RETRIES_def)
  from short long trimmed other loop show ?thesis by (intro conjI)
qed

theorem summarizer_retry_contract_witness:
  "length (js ''This summary text has forty-nine characters only.'') < 50 \<and>
   attempt_result True (Returns (AiString (js ''This summary text has forty-nine characters only.''))) =
     Inl SummaryTooShortOrEmpty \<and>
   50 \<le> length (trim (js ''This summary text is exactly fifty characters long'')) \<and>
   length (js ''This summary text is exactly fifty characters long'') = 50 \<and>
   attempt_result True (Returns (AiString (js ''This summary text is exactly fifty characters long''))) =
     Inr (disclaimer @ js ''This summary text is exactly fifty characters long'') \<and>
   attempt_result True (Returns (AiObject (js ''This summary text is exactly fifty characters long''))) =
     Inr (disclaimer @ js ''This summary text is exactly fifty characters long'') \<and>
   length (trim (js ''  This summary text has forty-nine characters only.  '')) < 50 \<and>
   length (js ''  This summary text has forty-nine characters only.  '') = 53 \<and>
   attempt_result True
     (Returns (AiObject (js ''  This summary text has forty-nine characters only.  ''))) =
     Inl SummaryTooShortOrEmpty \<and>
   fst (generateSummary flaky record1 no_options (start 0)) = Inr (disclaimer @ demo_text) \<and>
   log (snd (generateSummary flaky record1 no_options (start 0))) =
     [AiRun record1 (Throws (Thrown (js ''timeout''))), Sleep 1000,
      AiRun record1 (Throws (Thrown (js ''timeout''))), Sleep 2000,
      AiRun record1 (Returns (AiObject (js '' '' @ demo_text @ [0x0A])))] \<and>
   (\<exists>rs. log (snd (generateSummary flaky record1 no_options (start 0))) =
           log (start (0::nat)) @ attempt_events record1 1 rs \<and> length rs \<le> MAX_RETRIES)"
proof -
  let ?short = "js ''This summary text has forty-nine characters only.''"
  let ?fifty = "js ''This summary text is exactly fifty characters long''"
  let ?padded = "js ''  This summary text has forty-nine characters only.  ''"
  have h: "length ?short < 50" by (simp add: js_def)
  have tf: "trim ?fifty = ?fifty" by (simp add: js_def trim_def is_space_def)
  have lf: "length ?fifty = 50" by (simp add: js_def)
  from tf lf have hf: "50 \<le> length (trim ?fifty)" by simp
  have tp: "trim ?padded = ?short" by (simp add: js_def trim_def is_space_def)
  have lp: "length ?padded = 53" by (simp add: js_def)
  from tp h have hp: "length (trim ?padded) < 50" by simp
  have t: "trim (js '' '' @ demo_text @ [0x0A]) = demo_text"
    by (simp add: demo_text_def js_def trim_def is_space_def)
  have a: "attempt_result True (Returns (AiObject (js '' '' @ demo_text @ [0x0A]))) =
      Inr (disclaimer @ demo_text)"
    using length_demo_text by (auto simp: attempt_result_def check_summary_def t)
  have r: "generateSummary flaky record1 no_options (start 0) =
     (Inr (disclaimer @ demo_text),
      \<lparr> world = 3,
        log = [AiRun record1 (Throws (Thrown (js ''timeout''))), Sleep 1000,
               AiRun record1 (Throws (Thrown (js ''timeout''))), Sleep 2000,
               AiRun record1 (Returns (AiObject (js '' '' @ demo_text @ [0x0A])))] \<rparr>)"
    by (simp add: generateSummary_def with_disclaimer_no_options summary_loop_unroll
          call_ai_def call_sleep_def flaky_def start_def attempt_result_def)
      (simp add: a [unfolded attempt_result_def, simplified])
  note c = summarizer_retry_contract [where t = ?short and incl = True and u = ?fifty
      and v = ?padded and e = TypeError and pf = flaky and post = record1
      and options = no_options and s = "start 0"]
  note c1 = c [THEN conjunct1]
  note c2 = c [THEN conjunct2, THEN conjunct1]
  note c3 = c [THEN conjunct2, THEN conjunct2, THEN conjunct1]
  note c6 = c [THEN conjunct2, THEN conjunct2, THEN conjunct2, THEN conjunct2, THEN conjunct2]
  from c1 h have s1: "attempt_result True (Returns (AiString ?short)) = Inl SummaryTooShortOrEmpty"
    by simp
  from c2 hf have s2: "attempt_result True (Returns (AiString ?fifty)) = Inr (disclaimer @ ?fifty)"
    "attempt_result True (Returns (AiObject ?fifty)) = Inr (disclaimer @ ?fifty)"
    by (simp_all add: tf)
  from c3 hp have s3: "attempt_result True (Returns (AiObject ?padded)) = Inl SummaryTooShortOrEmpty"
    by simp
  from c6 have e: "\<exists>rs. log (snd (generateSummary flaky record1 no_options (start 0))) =
           log (start (0::nat)) @ attempt_events record1 1 rs \<and> length rs \<le> MAX_RETRIES"
    by auto
  from h hf lf hp lp r s1 s2 s3 e show ?thesis by simp
qed

section \<open>No fallback summary in the orchestrator\<close>

text \<open>
  Claim C6, as the specification states it: when the summarizer has used up its attempts,
  the orchestrator puts a fallback text in the place of the summary, so that every record
  still gets a summary. This fails on the code: on the example platform the model never
  gives a usable answer for the second record; the loop over this record makes the three
  attempts and nothing else, no artifact is written, and the record counts as a failure.
\<close>

theorem orchestrator_fallback_counterexample:
  "fst (process_posts demo demo_env demo_config [record2] 0 0 (start ())) = (0, 1) \<and>
   log (snd (process_posts demo demo_env demo_config [record2] 0 0 (start ()))) =
     [AiRun record2 (Returns AiOther), Sleep 1000,
      AiRun record2 (Returns AiOther), Sleep 2000,
      AiRun record2 (Returns AiOther)] \<and>
   \<not> list_ex is_Put (log (snd (process_posts demo demo_env demo_config [record2] 0 0 (start ()))))"
proof -
  have g: "guid record2 = js ''2''" by (simp add: record2_def demo_post_def)
  show ?thesis
    by (simp add: process_post_def generateSummary_def with_disclaimer_no_options
          summary_loop_unroll call_ai_def call_sleep_def demo_def g start_def attempt_result_def)
qed

text \<open>
  Claim C6, amended: when \<open>generateSummary\<close> throws for a record, the orchestrator puts
  no text in the place of the summary: the processing of the record ends with that error
  in the state the summarizer left, without any write to GitHub or to the ledger, and the
  loop counts one failure. The fallback text is put in the place of a failed summary by
  \<open>generateSummaries\<close> of the summarizer, which the scheduled handler does not call.
\<close>

theorem no_fallback_in_orchestrator:
  "generateSummary pf post no_options s = (Inl e, s1) \<longrightarrow>
     process_post pf env config post s = (Inl e, s1) \<and>
     process_posts pf env config [post] successCount failureCount s =
       ((successCount, failureCount + 1), s1) \<and>
     \<not> list_ex is_Put (new_events s s1) \<and> \<not> list_ex is_KvPut (new_events s s1) \<and>
     generateSummaries pf [post] no_options s = ([fallback], s1)"
proof
  assume g: "generateSummary pf post no_options s = (Inl e, s1)"
  then have p: "process_post pf env config post s = (Inl e, s1)" by (simp add: process_post_def)
  from generateSummary_log [OF g] have "\<not> list_ex is_Put (new_events s s1)"
    "\<not> list_ex is_KvPut (new_events s s1)"
    by (auto simp: new_events_def)
  with g p show "process_post pf env config post s = (Inl e, s1) \<and>
     process_posts pf env config [post] successCount failureCount s =
       ((successCount, failureCount + 1), s1) \<and>
     \<not> list_ex is_Put (new_events s s1) \<and> \<not> list_ex is_KvPut (new_events s s1) \<and>
     generateSummaries pf [post] no_options s = ([fallback], s1)"
    by simp
qed

theorem no_fallback_in_orchestrator_witness:
  "generateSummary demo record2 no_options (start ()) =
     (Inl (FailedToGenerateSummary (Some UnexpectedResponseFormat)),
      snd (generateSummary demo record2 no_options (start ()))) \<and>
   process_post demo demo_env demo_config record2 (start ()) =
     (Inl (FailedToGenerateSummary (Some UnexpectedResponseFormat)),
      snd (generateSummary demo record2 no_options (start ()))) \<and>
   fst (generateSummaries demo [record2] no_options (start ())) = [fallback]"
proof -
  have g: "guid record2 = js ''2''" by (simp add: record2_def demo_post_def)
  have "fst (generateSummary demo record2 no_options (start ())) =
      Inl (FailedToGenerateSummary (Some UnexpectedResponseFormat))"
    by (simp add: generateSummary_def with_disclaimer_no_options
          summary_loop_unroll call_ai_def call_sleep_def demo_def g start_def attempt_result_def)
  then have h: "generateSummary demo record2 no_options (start ()) =
     (Inl (FailedToGenerateSummary (Some UnexpectedResponseFormat)),
      snd (generateSummary demo record2 no_options (start ())))"
    by (metis prod.collapse)
  from h no_fallback_in_orchestrator [of demo record2 "start ()"
      "FailedToGenerateSummary (Some UnexpectedResponseFormat)"
      "snd (generateSummary demo record2 no_options (start ()))" demo_env demo_config 0 0]
  show ?thesis by simp
qed

section \<open>The publisher\<close>

text \<open>
  Claim C5 (conditional create-or-update publish) says that \<open>publishToGitHub\<close> issues a
  single write for every artifact. The code passes the JSON text to \<open>btoa\<close>, which throws
  on every code unit above \<open>0xFF\<close>; the exception is caught and the function returns
  \<open>false\<close>. For the post with title \<open>It's\<close> (apostrophe U+2019) and any summary, on every
  platform and in every state: \<open>publishToGitHub\<close> returns \<open>false\<close>, its only call is the
  read of the revision marker, and the processing of this post never succeeds. For an
  artifact within Latin-1 the claim holds, see \<open>publishToGitHub_conditional_write\<close>.
\<close>

theorem publish_of_non_latin1_artifact_writes_nothing:
  "fst (publishToGitHub pf config (createBlogPostSummary curly_post summ) s) = False \<and>
   new_events s (snd (publishToGitHub pf config (createBlogPostSummary curly_post summ) s)) =
     [Fetch (GetRequest (contents_url config (file_path (createBlogPostSummary curly_post summ)))
               (Some (token config)))
            (fst (fetch pf
                    (GetRequest (contents_url config (file_path (createBlogPostSummary curly_post summ)))
                       (Some (token config)))
                    (world s)))] \<and>
   isl (fst (process_post pf env config curly_post s))"
proof -
  let ?a = "\<lambda>summ. createBlogPostSummary curly_post summ"
  have n: "\<not> latin1 (stringify_summary (?a summ))" for summ
    by (simp add: stringify_summary_def createBlogPostSummary_def curly_post_def property_def
          quoteJSON_def js_def escape_unit_def is_high_surrogate_def is_low_surrogate_def)
  have f: "fst (publishToGitHub pf config (?a summ) t) = False" for summ t
    using n [of summ]
    by (simp add: publishToGitHub_def publishToGitHub_try_def btoa_def split: prod.splits)
  obtain published s' where p: "publishToGitHub pf config (?a summ) s = (published, s')"
    by (cases "publishToGitHub pf config (?a summ) s")
  from publishToGitHub_calls [OF p] n [of summ] obtain existingSha s1 r where
    g: "getFileSha pf config (file_path (?a summ)) s = (existingSha, s1)"
    and l: "log s1 = log s @ [Fetch (GetRequest (contents_url config (file_path (?a summ)))
              (Some (token config))) r]"
    and e: "s' = s1"
    by (auto simp: btoa_def)
  from getFileSha_log [OF g] obtain r' where
    c: "call_fetch pf (GetRequest (contents_url config (file_path (?a summ))) (Some (token config))) s = (r', s1)"
    and l': "log s1 = log s @ [Fetch (GetRequest (contents_url config (file_path (?a summ)))
              (Some (token config))) r']"
    by blast
  from l l' call_fetch_reply [OF c]
  have "r = fst (fetch pf (GetRequest (contents_url config (file_path (?a summ))) (Some (token config)))
                  (world s))"
    by simp
  with p l e have ev: "new_events s (snd (publishToGitHub pf config (?a summ) s)) =
     [Fetch (GetRequest (contents_url config (file_path (?a summ))) (Some (token config)))
            (fst (fetch pf (GetRequest (contents_url config (file_path (?a summ))) (Some (token config)))
                    (world s)))]"
    by (simp add: new_events_def)
  obtain res t where pp: "process_post pf env config curly_post s = (res, t)"
    by (cases "process_post pf env config curly_post s")
  from process_post_cases [OF pp] f have "isl res"
    by (elim disjE exE conjE) (auto dest: arg_cong [where f = fst])
  with pp f [of summ s] ev show ?thesis by simp
qed



section \<open>The item cap\<close>

text \<open>
  Claim C10 (a zero item cap disables truncation). For every feed document the fetch
  returns with a success status, \<open>fetchBlogPosts\<close> with \<open>maxPosts\<close> equal to 0 or to
  \<open>NaN\<close> returns all the posts parsed from the document; \<open>parseInt\<close> gives 0 for \<open>0\<close> and
  \<open>NaN\<close> for a value without leading digits such as \<open>abc\<close> or the empty string, and these
  are the numbers the scheduled handler passes for such a \<open>POSTS_TO_FETCH\<close>.
\<close>

theorem zero_or_NaN_cap_returns_all_posts:
  "(fst (fetch pf (GetRequest feedUrl None) (world s)) = Returns response \<and> ok response \<and>
    text_body response = Returns xmlText \<longrightarrow>
      fst (fetchBlogPosts pf dec feedUrl (Some (Num 0)) s) = Inr (parseRSSFeed dec xmlText) \<and>
      fst (fetchBlogPosts pf dec feedUrl (Some NaN) s) = Inr (parseRSSFeed dec xmlText)) \<and>
   parseInt10 (js ''0'') = Num 0 \<and> parseInt10 (js ''abc'') = NaN \<and> parseInt10 [] = NaN \<and>
   (t = [] \<or> (\<not> is_space (hd t) \<and> hd t \<noteq> 0x2D \<and> hd t \<noteq> 0x2B \<and> \<not> is_digit (hd t)) \<longrightarrow>
      parseInt10 t = NaN) \<and>
   (fst (fetch pf (GetRequest (RSS_FEED_URL env) None) (world s)) = Returns response \<and>
    ok response \<and> text_body response = Returns xmlText \<and>
    (POSTS_TO_FETCH env = js ''0'' \<or> POSTS_TO_FETCH env = js ''abc'') \<and>
    AI env \<and> createGitHubConfig env = Some config \<and> \<not> PROCESSED_POSTS env \<longrightarrow>
      (\<exists>s1. new_posts pf dec env s = Some (Inr (config, parseRSSFeed dec xmlText), s1)))"
proof -
  have p: "parseInt10 (js ''0'') = Num 0" "parseInt10 (js ''abc'') = NaN" "parseInt10 [] = NaN"
    by (simp_all add: parseInt10_def js_def is_space_def is_digit_def digits_value_def)
  have f: "fst (fetchBlogPosts pf dec u (Some (Num 0)) s) = Inr (parseRSSFeed dec xmlText) \<and>
      fst (fetchBlogPosts pf dec u (Some NaN) s) = Inr (parseRSSFeed dec xmlText)"
    if "fst (fetch pf (GetRequest u None) (world s)) = Returns response \<and> ok response \<and>
      text_body response = Returns xmlText" for u
    using that
    by (auto simp: fetchBlogPosts_def call_fetch_def truthy_num_def split: prod.splits)
  have n: "\<exists>s1. new_posts pf dec env s = Some (Inr (config, parseRSSFeed dec xmlText), s1)"
    if "fst (fetch pf (GetRequest (RSS_FEED_URL env) None) (world s)) = Returns response \<and>
      ok response \<and> text_body response = Returns xmlText \<and>
      (POSTS_TO_FETCH env = js ''0'' \<or> POSTS_TO_FETCH env = js ''abc'') \<and>
      AI env \<and> createGitHubConfig env = Some config \<and> \<not> PROCESSED_POSTS env"
  proof -
    from that have m: "parseInt10 (POSTS_TO_FETCH env) = Num 0 \<or> parseInt10 (POSTS_TO_FETCH env) = NaN"
      using p by auto
    from that f [of "RSS_FEED_URL env"]
    have "fst (fetchBlogPosts pf dec (RSS_FEED_URL env) (Some (parseInt10 (POSTS_TO_FETCH env))) s) =
        Inr (parseRSSFeed dec xmlText)"
      using m by auto
    with that show ?thesis
      by (cases "fetchBlogPosts pf dec (RSS_FEED_URL env) (Some (parseInt10 (POSTS_TO_FETCH env))) s")
        (auto simp: new_posts_def isAIAvailable_def)
  qed
  from p f [of feedUrl] n parseInt10_no_digits [of t] show ?thesis by blast
qed

theorem zero_or_NaN_cap_returns_all_posts_witness:
  "fst (fetch demo (GetRequest (js ''u'') None) (world (start ()))) =
     Returns (response_of 200 demo_feed JsonNull) \<and>
   ok (response_of 200 demo_feed JsonNull) \<and>
   text_body (response_of 200 demo_feed JsonNull) = Returns demo_feed \<and>
   fst (fetchBlogPosts demo id (js ''u'') (Some (Num 0)) (start ())) =
     Inr [demo_post ''A'' ''a'' ''1''] \<and>
   fst (fetchBlogPosts demo id (js ''u'') (Some NaN) (start ())) =
     Inr [demo_post ''A'' ''a'' ''1''] \<and>
   \<not> is_space (hd (js ''ten'')) \<and> \<not> is_digit (hd (js ''ten'')) \<and> parseInt10 (js ''ten'') = NaN"
proof -
  have d: "\<not> is_space (hd (js ''ten''))" "hd (js ''ten'') \<noteq> 0x2D" "hd (js ''ten'') \<noteq> 0x2B"
    "\<not> is_digit (hd (js ''ten''))"
    by (simp_all add: js_def is_space_def is_digit_def)
  have h: "fst (fetch demo (GetRequest (js ''u'') None) (world (start ()))) =
     Returns (response_of 200 demo_feed JsonNull) \<and>
   ok (response_of 200 demo_feed JsonNull) \<and>
   text_body (response_of 200 demo_feed JsonNull) = Returns demo_feed"
    by (simp add: demo_def ok_def response_of_def)
  from h d zero_or_NaN_cap_returns_all_posts [of demo "js ''u''" "start ()"
      "response_of 200 demo_feed JsonNull" demo_feed id "js ''ten''"]
  show ?thesis by (simp add: parse_demo_feed)
qed

section \<open>Slug extraction\<close>

text \<open>
  Claim C7, as the specification states it: \<open>extractSlugFromUrl\<close> gives \<open>my-post\<close> for
  \<open>https://blog.example.com/my-post/\<close> and for \<open>https://blog.example.com/my-post\<close>, and the
  empty string for \<open>https://other.com/x\<close>. This fails on the code: the expression of
  \<open>extractSlugFromUrl\<close> looks for the literal host \<open>blog.cloudflare.com\<close>, which these
  two URLs of \<open>blog.example.com\<close> do not hold, so they give the empty string.
\<close>

theorem extractSlugFromUrl_example_host_counterexample:
  "\<not> (extractSlugFromUrl (js ''https://blog.example.com/my-post/'') = js ''my-post'' \<and>
      extractSlugFromUrl (js ''https://blog.example.com/my-post'') = js ''my-post'' \<and>
      extractSlugFromUrl (js ''https://other.com/x'') = [])"
  by (simp add: extractSlugFromUrl_def js_def)

text \<open>
  Claim C7, amended: for the host \<open>blog.cloudflare.com\<close> the slug of
  \<open>https://blog.cloudflare.com/my-post/\<close> and of \<open>https://blog.cloudflare.com/my-post\<close> is
  \<open>my-post\<close>; for \<open>https://other.com/x\<close>, for \<open>https://blog.example.com/my-post/\<close> and for
  \<open>https://blog.example.com/my-post\<close> the result is empty, and for a record with one of
  these three links \<open>generateSlugForPost\<close> gives the slug derived from the title.
\<close>

theorem extractSlugFromUrl_examples:
  "extractSlugFromUrl (js ''https://blog.cloudflare.com/my-post/'') = js ''my-post'' \<and>
   extractSlugFromUrl (js ''https://blog.cloudflare.com/my-post'') = js ''my-post'' \<and>
   extractSlugFromUrl (js ''https://other.com/x'') = [] \<and>
   extractSlugFromUrl (js ''https://blog.example.com/my-post/'') = [] \<and>
   extractSlugFromUrl (js ''https://blog.example.com/my-post'') = [] \<and>
   generateSlugForPost (post\<lparr>link := js ''https://other.com/x''\<rparr>) = generateSlug (title post) \<and>
   generateSlugForPost (post\<lparr>link := js ''https://blog.example.com/my-post/''\<rparr>) =
     generateSlug (title post) \<and>
   generateSlugForPost (post\<lparr>link := js ''https://blog.example.com/my-post''\<rparr>) =
     generateSlug (title post)"
  by (simp add: extractSlugFromUrl_def generateSlugForPost_def generateSlug_def
        strip_trailing_slash_def js_def)

section \<open>The parser\<close>




end
